theory Spec2Isabelle
  imports Complex_Main "HOL-Library.Word" "HOL-Library.Product_Lexorder"
begin

section \<open>Python values the sources rely on\<close>

text \<open>
  Exceptions are values. Only the exception classes that the modelled paths can raise
  are listed; \<open>LibraryError\<close> stands for whatever \<^verbatim>\<open>MediaInfo.parse\<close> or a
  worker raises on an unreadable or unparseable file.
\<close>

datatype py_error = TypeError | ValueError | OverflowError | OSError | LibraryError

text \<open>
  \<^verbatim>\<open>str(n)\<close> for a Python integer: decimal digits, most significant first, with a
  leading minus sign for a negative number.
\<close>

definition digit_char :: "nat \<Rightarrow> char" where
  "digit_char d = ''0123456789'' ! d"

fun str_nat :: "nat \<Rightarrow> string" where
  "str_nat n = (if n < 10 then [digit_char n] else str_nat (n div 10) @ [digit_char (n mod 10)])"

declare str_nat.simps [simp del]

definition py_str :: "int \<Rightarrow> string" where
  "py_str i = (if i < 0 then CHR ''-'' # str_nat (nat (- i)) else str_nat (nat i))"

text \<open>
  Truthiness of the optional values the sources test with \<^verbatim>\<open>if x:\<close>,
  \<^verbatim>\<open>x or y\<close> and \<^verbatim>\<open>not x\<close>: \<^verbatim>\<open>None\<close>, \<open>0\<close> and the empty string are false.
\<close>

definition truthy_int :: "int option \<Rightarrow> bool" where
  "truthy_int x = (case x of None \<Rightarrow> False | Some n \<Rightarrow> n \<noteq> 0)"

definition truthy_str :: "string option \<Rightarrow> bool" where
  "truthy_str x = (case x of None \<Rightarrow> False | Some s \<Rightarrow> s \<noteq> [])"

text \<open>\<^verbatim>\<open>x or 0\<close> for an optional integer.\<close>

definition or_zero :: "int option \<Rightarrow> int" where
  "or_zero x = (if truthy_int x then the x else 0)"

text \<open>\<^verbatim>\<open>a or b\<close> for two optional strings: \<open>a\<close> when it is truthy, else \<open>b\<close>.\<close>

definition or_str :: "string option \<Rightarrow> string option \<Rightarrow> string option" where
  "or_str a b = (if truthy_str a then a else b)"

section \<open>Records of the libraries and of the scanner's dictionaries\<close>

text \<open>
  A value that pymediainfo stores for a numeric attribute of a track: while parsing it
  tries \<^verbatim>\<open>int\<close>, then \<^verbatim>\<open>float\<close>, and otherwise keeps the text; a missing attribute
  reads as \<^verbatim>\<open>None\<close>. Floats are real numbers here: rounding is not modelled.
\<close>

datatype py_value = PNone | PInt int | PFloat real | PStr string

definition truthy :: "py_value \<Rightarrow> bool" where
  "truthy v = (case v of PNone \<Rightarrow> False | PInt n \<Rightarrow> n \<noteq> 0 | PFloat x \<Rightarrow> x \<noteq> 0 | PStr s \<Rightarrow> s \<noteq> [])"

text \<open>A pymediainfo track, with the attributes the scanner reads.\<close>

record Track =
  track_type :: string
  duration :: py_value
  width :: "int option"
  height :: "int option"
  codec_id :: "string option"
  format :: "string option"
  bit_rate :: "int option"
  channel_s :: "int option"
  language :: "string option"

text \<open>
  The dictionary \<^verbatim>\<open>_get_media_info\<close> returns: five keys that are always present, and
  three audio keys that are present exactly when an audio track was found
  (\<open>audio\<close> is \<open>None\<close> when the keys are missing from the dictionary).
\<close>

record audio_info =
  audio_codec :: "string option"
  audio_channels :: "int option"
  audio_language :: "string option"

record media_info =
  resolution_width :: "int option"
  resolution_height :: "int option"
  codec :: "string option"
  bitrate :: "int option"
  duration :: "real option"
  audio :: "audio_info option"

text \<open>
  The dictionary \<^verbatim>\<open>_extract_file_info\<close> returns: nine keys that are always present,
  and the keys of \<^verbatim>\<open>_get_media_info\<close> when it returned a dictionary
  (\<^verbatim>\<open>info.update(media_info)\<close>).
\<close>

record file_info =
  file_path :: string
  file_name :: string
  file_size :: int
  file_hash :: string
  media_type :: string
  title :: string
  year :: "int option"
  season :: "int option"
  episode :: "int option"
  media :: "media_info option"

section \<open>The data model (src/database.py)\<close>

text \<open>
  \<^verbatim>\<open>MediaFile\<close>: one row per file. Every nullable column is an option. The primary
  key \<^verbatim>\<open>id\<close> is \<open>file_id\<close> here (\<open>id\<close> is HOL's identity function).
  \<^verbatim>\<open>file_size\<close> is nullable in the schema as well; it is an \<open>int\<close> here because the
  only writer of rows (the scan command) always stores \<^verbatim>\<open>stat().st_size\<close>, and the
  duplicate ranking compares it without a presence check.
  \<^verbatim>\<open>duration\<close> is a Python float; the model uses real numbers and does not model
  rounding. The two timestamps are readings of a clock, as natural numbers.
\<close>

record MediaFile =
  file_id :: int
  file_path :: string
  file_name :: string
  file_size :: int
  file_hash :: "string option"
  media_type :: "string option"
  title :: "string option"
  year :: "int option"
  season :: "int option"
  episode :: "int option"
  resolution_width :: "int option"
  resolution_height :: "int option"
  codec :: "string option"
  bitrate :: "int option"
  duration :: "real option"
  created_at :: nat
  scanned_at :: nat

text \<open>
  \<^verbatim>\<open>MediaIssue\<close>, with the five columns the analyzer sets. The remaining columns
  (\<^verbatim>\<open>id\<close>, \<^verbatim>\<open>resolved\<close>, \<^verbatim>\<open>resolved_at\<close>, \<^verbatim>\<open>resolution_action\<close>,
  \<^verbatim>\<open>created_at\<close>) take their defaults and are not read by the analyzer.
\<close>

record MediaIssue =
  media_file_id :: int
  issue_type :: string
  severity :: string
  description :: string
  duplicate_of_id :: "int option"

text \<open>
  The \<^verbatim>\<open>resolution\<close> property of \<^verbatim>\<open>MediaFile\<close>. The first comparison
  \<^verbatim>\<open>self.resolution_height >= 2160\<close> is evaluated without a presence check, and
  Python raises \<^verbatim>\<open>TypeError\<close> when it compares \<^verbatim>\<open>None\<close> with an integer.
\<close>

definition resolution :: "MediaFile \<Rightarrow> py_error + string" where
  "resolution f =
     (case resolution_height f of
        None \<Rightarrow> Inl TypeError
      | Some h \<Rightarrow>
          if h \<ge> 2160 then Inr ''4K''
          else if h \<ge> 1080 then Inr ''1080p''
          else if h \<ge> 720 then Inr ''720p''
          else if h \<ge> 480 then Inr ''480p''
          else Inr ''SD'')"

section \<open>Configuration (src/config.py)\<close>

text \<open>
  The settings the analyzer reads with \<^verbatim>\<open>config.get(key, default)\<close>. The YAML tree
  is flattened to one optional field per dotted key; \<open>None\<close> is a key that is missing
  or null, for which \<^verbatim>\<open>get\<close> returns the default.
\<close>

record config =
  quality_min_resolution :: "int option"
  quality_min_bitrate_1080p :: "int option"
  duplicate_similarity_threshold :: "real option"
  use_filename_similarity :: "bool option"
  check_missing_episodes :: "bool option"

definition config_get :: "'a option \<Rightarrow> 'a \<Rightarrow> 'a" where
  "config_get v dflt = (case v of None \<Rightarrow> dflt | Some x \<Rightarrow> x)"

section \<open>The analyzer (src/analyzer/analyzer.py)\<close>

text \<open>
  The analyzer reads all rows with \<^verbatim>\<open>session.query(MediaFile).all()\<close>: the list
  \<open>files\<close> below, in the order the query returns them. Every issue it creates is added to
  the session, committed, and returned; the functions below return that list.

  \<^verbatim>\<open>__init__\<close> reads two settings.
\<close>

definition min_resolution :: "config \<Rightarrow> int" where
  "min_resolution cfg = config_get (quality_min_resolution cfg) 1080"

definition similarity_threshold :: "config \<Rightarrow> real" where
  "similarity_threshold cfg = config_get (duplicate_similarity_threshold cfg) (85 / 100)"

subsection \<open>find_duplicates\<close>

text \<open>
  \<^verbatim>\<open>hash_groups = defaultdict(list)\<close>: an association list in insertion order, which
  is the order Python iterates a dictionary in. \<open>append_to\<close> is
  \<^verbatim>\<open>hash_groups[h].append(f)\<close>.
\<close>

fun append_to :: "'k \<Rightarrow> 'v \<Rightarrow> ('k \<times> 'v list) list \<Rightarrow> ('k \<times> 'v list) list" where
  "append_to k v [] = [(k, [v])]"
| "append_to k v ((k', vs) # rest) =
     (if k' = k then (k', vs @ [v]) # rest else (k', vs) # append_to k v rest)"

definition hash_groups :: "MediaFile list \<Rightarrow> (string \<times> MediaFile list) list" where
  "hash_groups files =
     foldl (\<lambda>groups f. if truthy_str (file_hash f) then append_to (the (file_hash f)) f groups
                        else groups) [] files"

text \<open>The sort key of line 47: a tuple, compared lexicographically.\<close>

definition rank_key :: "MediaFile \<Rightarrow> int \<times> int \<times> int" where
  "rank_key f = (- or_zero (resolution_height f), - or_zero (bitrate f), file_size f)"

text \<open>
  \<^verbatim>\<open>list.sort(key=..., reverse=True)\<close>: descending by key, and stable (records with
  equal keys keep their order). CPython reverses the list, sorts it ascending with its
  stable sort, and reverses the result; \<open>sort_key\<close> is HOL's stable insertion sort.
\<close>

definition sort_reverse :: "('a \<Rightarrow> 'k::linorder) \<Rightarrow> 'a list \<Rightarrow> 'a list" where
  "sort_reverse key xs = rev (sort_key key (rev xs))"

definition duplicate_issue :: "MediaFile \<Rightarrow> MediaFile \<Rightarrow> MediaIssue" where
  "duplicate_issue best_file dup =
     \<lparr>media_file_id = file_id dup, issue_type = ''duplicate'', severity = ''high'',
      description = ''Duplicate of '' @ file_name best_file,
      duplicate_of_id = Some (file_id best_file)\<rparr>"

text \<open>The body of the loop over \<^verbatim>\<open>hash_groups.items()\<close>, for one group.\<close>

definition group_issues :: "MediaFile list \<Rightarrow> MediaIssue list" where
  "group_issues duplicates =
     (if length duplicates > 1 then
        (case sort_reverse rank_key duplicates of
           [] \<Rightarrow> []
         | best_file # rest \<Rightarrow> map (duplicate_issue best_file) rest)
      else [])"

definition exact_duplicates :: "MediaFile list \<Rightarrow> MediaIssue list" where
  "exact_duplicates files = concat (map (\<lambda>(h, duplicates). group_issues duplicates) (hash_groups files))"

text \<open>
  \<^verbatim>\<open>_find_similar_filenames\<close>. Two library functions are parameters:
  \<open>ratio a b\<close> is \<^verbatim>\<open>SequenceMatcher(None, a, b).ratio()\<close>, and \<open>percent x\<close> is the
  text Python formats \<open>x\<close> to under \<^verbatim>\<open>:.0%\<close>. \<open>checked_pairs\<close> is the set of
  id pairs seen so far, \<^verbatim>\<open>tuple(sorted([a, b]))\<close> is \<open>(min a b, max a b)\<close>.
  \<^verbatim>\<open>better_file == file1\<close> compares object identity, so \<open>worse_file\<close> is
  \<open>file2\<close> exactly when \<open>file1\<close> was chosen.
\<close>

definition similar_issue :: "(real \<Rightarrow> string) \<Rightarrow> real \<Rightarrow> MediaFile \<Rightarrow> MediaFile \<Rightarrow> MediaIssue" where
  "similar_issue percent similarity better_file worse_file =
     \<lparr>media_file_id = file_id worse_file, issue_type = ''duplicate'', severity = ''medium'',
      description = ''Similar to '' @ file_name better_file @ '' ('' @ percent similarity @ '' match)'',
      duplicate_of_id = Some (file_id better_file)\<rparr>"

fun similar_inner ::
  "(string \<Rightarrow> string \<Rightarrow> real) \<Rightarrow> (real \<Rightarrow> string) \<Rightarrow> real \<Rightarrow> MediaFile \<Rightarrow> MediaFile list \<Rightarrow>
   (int \<times> int) list \<times> MediaIssue list \<Rightarrow> (int \<times> int) list \<times> MediaIssue list" where
  "similar_inner ratio percent threshold file1 [] st = st"
| "similar_inner ratio percent threshold file1 (file2 # rest) (checked_pairs, issues) =
     (let pair = (min (file_id file1) (file_id file2), max (file_id file1) (file_id file2)) in
      if pair \<in> set checked_pairs then
        similar_inner ratio percent threshold file1 rest (checked_pairs, issues)
      else
        (let similarity = ratio (file_name file1) (file_name file2) in
         if similarity \<ge> threshold then
           (let better_file =
                  (if or_zero (resolution_height file1) \<ge> or_zero (resolution_height file2)
                   then file1 else file2);
                worse_file =
                  (if or_zero (resolution_height file1) \<ge> or_zero (resolution_height file2)
                   then file2 else file1)
            in similar_inner ratio percent threshold file1 rest
                 (pair # checked_pairs, issues @ [similar_issue percent similarity better_file worse_file]))
         else similar_inner ratio percent threshold file1 rest (pair # checked_pairs, issues)))"

fun similar_outer ::
  "(string \<Rightarrow> string \<Rightarrow> real) \<Rightarrow> (real \<Rightarrow> string) \<Rightarrow> real \<Rightarrow> MediaFile list \<Rightarrow>
   (int \<times> int) list \<times> MediaIssue list \<Rightarrow> (int \<times> int) list \<times> MediaIssue list" where
  "similar_outer ratio percent threshold [] st = st"
| "similar_outer ratio percent threshold (file1 # rest) st =
     similar_outer ratio percent threshold rest (similar_inner ratio percent threshold file1 rest st)"

definition find_similar_filenames ::
  "(string \<Rightarrow> string \<Rightarrow> real) \<Rightarrow> (real \<Rightarrow> string) \<Rightarrow> config \<Rightarrow> MediaFile list \<Rightarrow> MediaIssue list" where
  "find_similar_filenames ratio percent cfg files =
     snd (similar_outer ratio percent (similarity_threshold cfg) files ([], []))"

definition find_duplicates ::
  "(string \<Rightarrow> string \<Rightarrow> real) \<Rightarrow> (real \<Rightarrow> string) \<Rightarrow> config \<Rightarrow> MediaFile list \<Rightarrow> MediaIssue list" where
  "find_duplicates ratio percent cfg files =
     exact_duplicates files @
     (if config_get (use_filename_similarity cfg) False
      then find_similar_filenames ratio percent cfg files else [])"

subsection \<open>find_low_resolution\<close>

text \<open>
  The query filters with \<^verbatim>\<open>resolution_height < min_resolution\<close> in SQL, where a
  comparison with \<^verbatim>\<open>NULL\<close> is not true: rows without a height are not selected.
  \<open>str_opt\<close> is how an f-string prints an optional integer.
\<close>

definition str_opt :: "int option \<Rightarrow> string" where
  "str_opt x = (case x of None \<Rightarrow> ''None'' | Some n \<Rightarrow> py_str n)"

definition below_minimum :: "config \<Rightarrow> MediaFile \<Rightarrow> bool" where
  "below_minimum cfg f = (case resolution_height f of None \<Rightarrow> False | Some h \<Rightarrow> h < min_resolution cfg)"

definition low_res_issue :: "config \<Rightarrow> MediaFile \<Rightarrow> MediaIssue" where
  "low_res_issue cfg f =
     \<lparr>media_file_id = file_id f, issue_type = ''low_res'', severity = ''high'',
      description = ''Resolution '' @ str_opt (resolution_height f) @ ''p is below minimum ''
                    @ py_str (min_resolution cfg) @ ''p'',
      duplicate_of_id = None\<rparr>"

definition find_low_resolution :: "config \<Rightarrow> MediaFile list \<Rightarrow> MediaIssue list" where
  "find_low_resolution cfg files = map (low_res_issue cfg) (filter (below_minimum cfg) files)"

subsection \<open>find_quality_issues\<close>











subsection \<open>find_missing_episodes\<close>

text \<open>
  \<^verbatim>\<open>series_episodes = defaultdict(lambda: defaultdict(set))\<close>: two levels of
  dictionaries in insertion order, with a set of episode numbers at the bottom.
  \<open>update_default k dflt g d\<close> is \<^verbatim>\<open>d[k] = g(d[k])\<close> on a \<^verbatim>\<open>defaultdict\<close> whose
  factory returns \<open>dflt\<close>.
\<close>

fun update_default :: "'k \<Rightarrow> 'v \<Rightarrow> ('v \<Rightarrow> 'v) \<Rightarrow> ('k \<times> 'v) list \<Rightarrow> ('k \<times> 'v) list" where
  "update_default k dflt g [] = [(k, g dflt)]"
| "update_default k dflt g ((k', v) # rest) =
     (if k' = k then (k', g v) # rest else (k', v) # update_default k dflt g rest)"

type_synonym episode_table = "(string option \<times> (int \<times> int set) list) list"

definition is_tv_episode :: "MediaFile \<Rightarrow> bool" where
  "is_tv_episode f = (media_type f = Some ''tv'' \<and> season f \<noteq> None \<and> episode f \<noteq> None)"

definition add_episode :: "episode_table \<Rightarrow> MediaFile \<Rightarrow> episode_table" where
  "add_episode series_episodes f =
     update_default (title f) [] (update_default (the (season f)) {} (insert (the (episode f))))
       series_episodes"

definition series_episodes :: "MediaFile list \<Rightarrow> episode_table" where
  "series_episodes files = foldl add_episode [] (filter is_tv_episode files)"

text \<open>
  A gap entry is the dictionary with the keys \<^verbatim>\<open>series\<close>, \<^verbatim>\<open>season\<close> and
  \<^verbatim>\<open>missing_episodes\<close>, as a triple.
\<close>

type_synonym series_gap = "string option \<times> int \<times> int list"

definition season_gaps :: "string option \<Rightarrow> int \<times> int set \<Rightarrow> series_gap list" where
  "season_gaps series se =
     (case se of (season_no, episodes) \<Rightarrow>
        if episodes = {} then []
        else
          (let min_ep = Min episodes; max_ep = Max episodes;
               expected = {min_ep..max_ep};
               missing_eps = expected - episodes
           in if missing_eps \<noteq> {} then [(series, season_no, sorted_list_of_set missing_eps)] else []))"

definition find_missing_episodes :: "MediaFile list \<Rightarrow> series_gap list" where
  "find_missing_episodes files =
     concat (map (\<lambda>(series, seasons). concat (map (season_gaps series) seasons))
                 (series_episodes files))"

section \<open>The scanner (src/scanner/scanner.py)\<close>

subsection \<open>_calculate_hash\<close>

text \<open>
  A file is its content, a list of bytes; \<^verbatim>\<open>stat().st_size\<close> is the length of the
  content. A file opened for reading is the content and a position. \<open>read n\<close> returns
  at most \<open>n\<close> bytes from the position on and advances it; \<open>seek_end off\<close> is
  \<^verbatim>\<open>f.seek(off, 2)\<close>, which raises \<^verbatim>\<open>OSError\<close> when the new position would be
  negative.
\<close>

type_synonym byte = "8 word"

record open_file =
  content :: "byte list"
  pos :: nat

definition read :: "nat \<Rightarrow> open_file \<Rightarrow> byte list \<times> open_file" where
  "read n f = (let bs = take n (drop (pos f) (content f)) in (bs, f\<lparr>pos := pos f + length bs\<rparr>))"

definition seek_end :: "int \<Rightarrow> open_file \<Rightarrow> py_error + open_file" where
  "seek_end off f =
     (let p = int (length (content f)) + off
      in if p < 0 then Inl OSError else Inr (f\<lparr>pos := nat p\<rparr>))"

text \<open>\<^verbatim>\<open>str(file_size).encode()\<close>: the ASCII bytes of the decimal digits.\<close>

definition encode :: "string \<Rightarrow> byte list" where
  "encode s = map (\<lambda>c. of_nat (of_char c)) s"

text \<open>
  The hash function of the xxhash library is a parameter \<open>xxh64\<close>, from the bytes fed
  to a 64-bit digest. A hasher is the bytes fed so far: \<^verbatim>\<open>update\<close> appends, and
  \<^verbatim>\<open>hexdigest\<close> prints the digest of everything fed as 16 lower-case hexadecimal digits.
\<close>

definition update :: "byte list \<Rightarrow> byte list \<Rightarrow> byte list" where
  "update hasher bs = hasher @ bs"

definition hex_digit :: "nat \<Rightarrow> char" where
  "hex_digit d = ''0123456789abcdef'' ! d"

definition hexdigest :: "(byte list \<Rightarrow> 64 word) \<Rightarrow> byte list \<Rightarrow> string" where
  "hexdigest xxh64 hasher =
     map (\<lambda>i. hex_digit (unat (drop_bit (4 * (15 - i)) (xxh64 hasher)) mod 16)) [0..<16]"

definition calculate_hash :: "(byte list \<Rightarrow> 64 word) \<Rightarrow> nat \<Rightarrow> byte list \<Rightarrow> py_error + string" where
  "calculate_hash xxh64 chunk_size file =
     (let hasher = [];
          file_size = length file;
          hasher = update hasher (encode (str_nat file_size));
          f = \<lparr>content = file, pos = 0\<rparr>;
          (head, f) = read chunk_size f;
          hasher = update hasher head
      in if file_size > chunk_size * 2 then
           (case seek_end (- int chunk_size) f of
              Inl e \<Rightarrow> Inl e
            | Inr f \<Rightarrow>
                (let (tail, f) = read chunk_size f;
                     hasher = update hasher tail
                 in Inr (hexdigest xxh64 hasher)))
         else Inr (hexdigest xxh64 hasher))"

subsection \<open>_get_media_info\<close>

text \<open>
  The loop over \<^verbatim>\<open>media_info.tracks\<close>. A track object is always true under
  \<^verbatim>\<open>not\<close>, so \<^verbatim>\<open>not video_track\<close> holds exactly while no track was stored.
\<close>

fun select_tracks :: "Track list \<Rightarrow> Track option \<times> Track option \<Rightarrow> Track option \<times> Track option" where
  "select_tracks [] st = st"
| "select_tracks (track # rest) (video_track, audio_track) =
     select_tracks rest
       (if track_type track = ''Video'' \<and> video_track = None then (Some track, audio_track)
        else if track_type track = ''Audio'' \<and> audio_track = None then (video_track, Some track)
        else (video_track, audio_track))"

text \<open>
  \<^verbatim>\<open>float(v)\<close>. Text is parsed by Python's own parser, the parameter
  \<open>parse_float\<close> (\<open>None\<close> when the text is no number, which raises
  \<^verbatim>\<open>ValueError\<close>); \<^verbatim>\<open>None\<close> raises \<^verbatim>\<open>TypeError\<close>; an integer beyond the range of
  a double raises \<^verbatim>\<open>OverflowError\<close>.
\<close>

definition py_float :: "(string \<Rightarrow> real option) \<Rightarrow> py_value \<Rightarrow> py_error + real" where
  "py_float parse_float v =
     (case v of
        PNone \<Rightarrow> Inl TypeError
      | PInt n \<Rightarrow> if \<bar>n\<bar> \<ge> 2 ^ 1024 - 2 ^ 970 then Inl OverflowError else Inr (of_int n)
      | PFloat x \<Rightarrow> Inr x
      | PStr s \<Rightarrow> (case parse_float s of None \<Rightarrow> Inl ValueError | Some x \<Rightarrow> Inr x))"

text \<open>
  Lines 106 to 111: the duration in seconds. \<^verbatim>\<open>ValueError\<close> and \<^verbatim>\<open>TypeError\<close>
  are handled here; any other exception leaves this block.
\<close>

definition video_duration :: "(string \<Rightarrow> real option) \<Rightarrow> Track \<Rightarrow> py_error + real option" where
  "video_duration parse_float video_track =
     (if truthy (Track.duration video_track) then
        (case py_float parse_float (Track.duration video_track) of
           Inr x \<Rightarrow> Inr (Some (x / 1000))
         | Inl ValueError \<Rightarrow> Inr None
         | Inl TypeError \<Rightarrow> Inr None
         | Inl e \<Rightarrow> Inl e)
      else Inr None)"

definition audio_keys :: "Track \<Rightarrow> audio_info" where
  "audio_keys audio_track =
     \<lparr>audio_codec = or_str (format audio_track) (codec_id audio_track),
      audio_channels = channel_s audio_track,
      audio_language = language audio_track\<rparr>"

text \<open>
  \<open>parsed\<close> is what \<^verbatim>\<open>MediaInfo.parse(file_path)\<close> does: it raises, or it returns
  the tracks in the order the container declares them. The outer
  \<^verbatim>\<open>except Exception\<close> turns every exception into the result \<^verbatim>\<open>None\<close>.
\<close>

definition get_media_info :: "(string \<Rightarrow> real option) \<Rightarrow> py_error + Track list \<Rightarrow> media_info option" where
  "get_media_info parse_float parsed =
     (case parsed of
        Inl e \<Rightarrow> None
      | Inr tracks \<Rightarrow>
          (case select_tracks tracks (None, None) of
             (None, audio_track) \<Rightarrow> None
           | (Some video_track, audio_track) \<Rightarrow>
               (case video_duration parse_float video_track of
                  Inl e \<Rightarrow> None
                | Inr d \<Rightarrow>
                    Some \<lparr>media_info.resolution_width = width video_track,
                          media_info.resolution_height = height video_track,
                          media_info.codec = or_str (codec_id video_track) (format video_track),
                          media_info.bitrate = bit_rate video_track,
                          media_info.duration = d,
                          audio = map_option audio_keys audio_track\<rparr>)))"

subsection \<open>Identity from the file name\<close>






















section \<open>The scan command (src/cli.py)\<close>

text \<open>
  The table of \<^verbatim>\<open>MediaFile\<close> rows is a list in insertion order.

  \<^verbatim>\<open>setattr(existing, key, value)\<close> for every key of the dictionary: the nine keys
  that are always there, and the five media keys when the dictionary has them. The audio
  keys name no column; setting them on the object changes no column. Neither the
  primary key nor a timestamp is a key of the dictionary.
\<close>

definition set_media :: "media_info \<Rightarrow> MediaFile \<Rightarrow> MediaFile" where
  "set_media m existing =
     existing\<lparr>resolution_width := media_info.resolution_width m,
              resolution_height := media_info.resolution_height m,
              codec := media_info.codec m,
              bitrate := media_info.bitrate m,
              duration := media_info.duration m\<rparr>"

definition set_attrs :: "file_info \<Rightarrow> MediaFile \<Rightarrow> MediaFile" where
  "set_attrs info existing =
     (let existing = existing\<lparr>file_path := file_info.file_path info,
                               file_name := file_info.file_name info,
                               file_size := file_info.file_size info,
                               file_hash := Some (file_info.file_hash info),
                               media_type := Some (file_info.media_type info),
                               title := Some (file_info.title info),
                               year := file_info.year info,
                               season := file_info.season info,
                               episode := file_info.episode info\<rparr>
      in case media info of None \<Rightarrow> existing | Some m \<Rightarrow> set_media m existing)"

text \<open>
  \<^verbatim>\<open>MediaFile(**info)\<close>. The constructor of a declarative class accepts only keys that
  are attributes of the class and raises \<^verbatim>\<open>TypeError\<close> for any other: the class has no
  \<^verbatim>\<open>audio_codec\<close>, \<^verbatim>\<open>audio_channels\<close> or \<^verbatim>\<open>audio_language\<close>, so a dictionary with
  the audio keys is refused. Columns without a key are null. The primary key and the two
  timestamps are given when the row is inserted: \<open>new_id\<close> and the clock reading
  \<open>now\<close>.
\<close>

definition has_audio_keys :: "file_info \<Rightarrow> bool" where
  "has_audio_keys info = (case media info of None \<Rightarrow> False | Some m \<Rightarrow> audio m \<noteq> None)"

definition blank_row :: "int \<Rightarrow> nat \<Rightarrow> MediaFile" where
  "blank_row new_id now =
     \<lparr>file_id = new_id, file_path = [], file_name = [], file_size = 0, file_hash = None,
      media_type = None, title = None, year = None, season = None, episode = None,
      resolution_width = None, resolution_height = None, codec = None, bitrate = None,
      duration = None, created_at = now, scanned_at = now\<rparr>"

definition new_media_file :: "int \<Rightarrow> nat \<Rightarrow> file_info \<Rightarrow> py_error + MediaFile" where
  "new_media_file new_id now info =
     (if has_audio_keys info then Inl TypeError else Inr (set_attrs info (blank_row new_id now)))"

text \<open>
  The key SQLite gives a new row of a table with an integer primary key: one more than
  the largest key in the table, and 1 in an empty table (keys are positive).
\<close>

definition next_id :: "MediaFile list \<Rightarrow> int" where
  "next_id table = fold max (map file_id table) 0 + 1"

text \<open>
  The body of \<^verbatim>\<open>for info in batch\<close>: the query for the first row with the path, then
  the update of that row in its place, or the insertion of a new row.
\<close>

fun update_first :: "('a \<Rightarrow> bool) \<Rightarrow> ('a \<Rightarrow> 'a) \<Rightarrow> 'a list \<Rightarrow> 'a list" where
  "update_first p g [] = []"
| "update_first p g (x # xs) = (if p x then g x # xs else x # update_first p g xs)"

definition upsert :: "nat \<Rightarrow> file_info \<Rightarrow> MediaFile list \<Rightarrow> py_error + MediaFile list" where
  "upsert now info table =
     (case find (\<lambda>f. file_path f = file_info.file_path info) table of
        Some existing \<Rightarrow>
          Inr (update_first (\<lambda>f. file_path f = file_info.file_path info) (set_attrs info) table)
      | None \<Rightarrow>
          (case new_media_file (next_id table) now info of
             Inl e \<Rightarrow> Inl e
           | Inr media_file \<Rightarrow> Inr (table @ [media_file])))"

text \<open>
  The loop \<^verbatim>\<open>for info in batch\<close> with its counter. When a step raises, the rows
  written before it stay in the session (the third component is the exception).
\<close>

fun write_batch ::
  "nat \<Rightarrow> file_info list \<Rightarrow> MediaFile list \<Rightarrow> nat \<Rightarrow> MediaFile list \<times> nat \<times> py_error option" where
  "write_batch now [] table total_files = (table, total_files, None)"
| "write_batch now (info # rest) table total_files =
     (case upsert now info table of
        Inl e \<Rightarrow> (table, total_files, Some e)
      | Inr table' \<Rightarrow> write_batch now rest table' (total_files + 1))"

text \<open>
  The state of the loop over the completed futures: the committed table \<open>db\<close>, the
  table as the open session sees it (with the rows not yet committed), the batch and the
  counter. \<open>future.result()\<close> raises what the worker raised, or returns its dictionary.
\<close>

datatype future_result = Raised py_error | Returned file_info

record scan_state =
  db :: "MediaFile list"
  session :: "MediaFile list"
  batch :: "file_info list"
  total_files :: nat

text \<open>
  One iteration, lines 93 to 119. An exception anywhere in the \<^verbatim>\<open>try\<close> block is
  logged and the loop goes on: when it comes from the loop over the batch, nothing is
  committed and the batch is not emptied.
\<close>

definition scan_step :: "int \<Rightarrow> nat \<Rightarrow> scan_state \<Rightarrow> future_result \<Rightarrow> scan_state" where
  "scan_step batch_size now s r =
     (case r of
        Raised e \<Rightarrow> s
      | Returned file_info \<Rightarrow>
          (let batch' = batch s @ [file_info] in
           if int (length batch') \<ge> batch_size then
             (case write_batch now batch' (session s) (total_files s) of
                (table, n, None) \<Rightarrow> \<lparr>db = table, session = table, batch = [], total_files = n\<rparr>
              | (table, n, Some e) \<Rightarrow> \<lparr>db = db s, session = table, batch = batch', total_files = n\<rparr>)
           else s\<lparr>batch := batch'\<rparr>))"

definition scan_loop :: "int \<Rightarrow> nat \<Rightarrow> future_result list \<Rightarrow> scan_state \<Rightarrow> scan_state" where
  "scan_loop batch_size now results s = foldl (scan_step batch_size now) s results"

definition open_session :: "MediaFile list \<Rightarrow> scan_state" where
  "open_session table = \<lparr>db = table, session = table, batch = [], total_files = 0\<rparr>"

text \<open>
  The scan of one path, from the opening of the session: \<open>results\<close> are the futures in
  the order they complete. The result is the committed table when the session is closed,
  and the count of files or the exception that ends the command: an exception in the
  last loop over the batch (lines 122 to 137) is not handled, and closing the session
  discards what was not committed.
\<close>

definition scan_path ::
  "int \<Rightarrow> nat \<Rightarrow> future_result list \<Rightarrow> MediaFile list \<Rightarrow> MediaFile list \<times> (py_error + nat)" where
  "scan_path batch_size now results table =
     (let s = scan_loop batch_size now results (open_session table) in
      if batch s \<noteq> [] then
        (case write_batch now (batch s) (session s) (total_files s) of
           (table', n, None) \<Rightarrow> (table', Inr n)
         | (table', n, Some e) \<Rightarrow> (db s, Inl e))
      else (db s, Inr (total_files s)))"

section \<open>Sample values\<close>

text \<open>Rows and a configuration for the concrete instances below.\<close>

definition sample_row :: "int \<Rightarrow> string \<Rightarrow> string option \<Rightarrow> int option \<Rightarrow> int option \<Rightarrow> MediaFile" where
  "sample_row i name h rh br =
     \<lparr>file_id = i, file_path = ''/media/'' @ name, file_name = name, file_size = 1000,
      file_hash = h, media_type = Some ''movie'', title = Some name, year = None, season = None,
      episode = None, resolution_width = None, resolution_height = rh, codec = None,
      bitrate = br, duration = None, created_at = 0, scanned_at = 0\<rparr>"

text \<open>A configuration file without any of the analyzer's keys: every default applies.\<close>

definition default_config :: config where
  "default_config = \<lparr>quality_min_resolution = None, quality_min_bitrate_1080p = None,
     duplicate_similarity_threshold = None, use_filename_similarity = None,
     check_missing_episodes = None\<rparr>"

text \<open>A configuration file that sets the minimum resolution and nothing else.\<close>

definition config_with_minimum :: "int \<Rightarrow> config" where
  "config_with_minimum m = default_config\<lparr>quality_min_resolution := Some m\<rparr>"

section \<open>Notions used in the statements\<close>

text \<open>
  The episode numbers observed for a series and a season: those of the rows of kind
  \<open>tv\<close> with that title, that season and an episode number.
\<close>

definition observed :: "MediaFile list \<Rightarrow> string option \<Rightarrow> int \<Rightarrow> int set" where
  "observed files series s =
     {e. \<exists>f\<in>set files. media_type f = Some ''tv'' \<and> title f = series \<and> season f = Some s \<and>
                        episode f = Some e}"

text \<open>The series and the season of a gap entry.\<close>

definition gap_key :: "series_gap \<Rightarrow> string option \<times> int" where
  "gap_key g = (fst g, fst (snd g))"

text \<open>A row of kind \<open>tv\<close> for a series, a season and an episode.\<close>

definition tv_row :: "int \<Rightarrow> string \<Rightarrow> int \<Rightarrow> int \<Rightarrow> MediaFile" where
  "tv_row i series s e =
     (sample_row i ''ep.mkv'' None None None)
       \<lparr>media_type := Some ''tv'', title := Some series, season := Some s, episode := Some e\<rparr>"

text \<open>
  The episodes that the two-level table of \<^verbatim>\<open>find_missing_episodes\<close> holds for a
  series and a season, and the invariant of the table: no key twice at either level.
\<close>

definition episodes_of :: "episode_table \<Rightarrow> string option \<Rightarrow> int \<Rightarrow> int set" where
  "episodes_of t series s =
     (case map_of t series of
        None \<Rightarrow> {}
      | Some seasons \<Rightarrow> (case map_of seasons s of None \<Rightarrow> {} | Some eps \<Rightarrow> eps))"

definition table_ok :: "episode_table \<Rightarrow> bool" where
  "table_ok t \<longleftrightarrow>
     distinct (map fst t) \<and> (\<forall>(series, seasons) \<in> set t. distinct (map fst seasons))"

text \<open>
  A stand-in for the library's hash function, and a file of 16385 bytes whose only
  byte outside the first and the last 8192 is \<open>b\<close>.
\<close>

definition sample_hash :: "byte list \<Rightarrow> 64 word" where
  "sample_hash bs = foldl (\<lambda>h b. h * 31 + ucast b) 7 bs"

definition padded :: "byte \<Rightarrow> byte list" where
  "padded b = replicate 8192 0 @ [b] @ replicate 8192 0"

text \<open>A file of 8193 bytes whose last byte is \<open>b\<close>.\<close>

definition short_file :: "byte \<Rightarrow> byte list" where
  "short_file b = replicate 8192 0 @ [b]"

text \<open>
  A track of a given kind with a duration and a height, and a text parser that accepts
  no text (every text is malformed).
\<close>

definition sample_track :: "string \<Rightarrow> py_value \<Rightarrow> int option \<Rightarrow> Track" where
  "sample_track kind d h =
     \<lparr>track_type = kind, Track.duration = d, width = None, height = h, codec_id = None,
      format = Some ''AVC'', bit_rate = None, channel_s = None, language = None\<rparr>"

definition no_float :: "string \<Rightarrow> real option" where
  "no_float s = None"




text \<open>
  The dictionaries among the results of the workers, in completion order; and a
  dictionary without audio keys, for a file of a given name and height.
\<close>

definition returned :: "future_result list \<Rightarrow> file_info list" where
  "returned rs = List.map_filter (\<lambda>r. case r of Raised e \<Rightarrow> None | Returned info \<Rightarrow> Some info) rs"

definition sample_info :: "string \<Rightarrow> int option \<Rightarrow> file_info" where
  "sample_info name h =
     \<lparr>file_info.file_path = ''/media/'' @ name, file_info.file_name = name,
      file_info.file_size = 1000, file_info.file_hash = ''abc'',
      file_info.media_type = ''movie'', file_info.title = name, file_info.year = None,
      file_info.season = None, file_info.episode = None,
      media = Some \<lparr>media_info.resolution_width = None, media_info.resolution_height = h,
                     media_info.codec = None, media_info.bitrate = None,
                     media_info.duration = None, audio = None\<rparr>\<rparr>"

text \<open>The dictionary of a file with a video and an audio track: it has the audio keys.\<close>

definition sample_info_audio :: "string \<Rightarrow> int option \<Rightarrow> file_info" where
  "sample_info_audio name h =
     (sample_info name h)
       \<lparr>media := Some \<lparr>media_info.resolution_width = None, media_info.resolution_height = h,
                        media_info.codec = None, media_info.bitrate = None,
                        media_info.duration = None,
                        audio = Some \<lparr>audio_codec = Some ''AAC'', audio_channels = Some 2,
                                       audio_language = None\<rparr>\<rparr>\<rparr>"

text \<open>
  A dictionary agrees with a table when the first row with its path already has every
  value the dictionary would set.
\<close>

definition agrees :: "file_info \<Rightarrow> MediaFile list \<Rightarrow> bool" where
  "agrees info table =
     (case find (\<lambda>f. file_path f = file_info.file_path info) table of
        None \<Rightarrow> False
      | Some f \<Rightarrow> set_attrs info f = f)"

text \<open>The paths of a table, and whether writing a batch to a table with these paths raises.\<close>

definition path_set :: "MediaFile list \<Rightarrow> string set" where
  "path_set t = set (map file_path t)"

fun write_fails :: "file_info list \<Rightarrow> string set \<Rightarrow> bool" where
  "write_fails [] P = False"
| "write_fails (i # b) P =
     (if file_info.file_path i \<in> P then write_fails b P
      else if has_audio_keys i then True
      else write_fails b (insert (file_info.file_path i) P))"

text \<open>
  The end of \<open>scan_path\<close> on its own, and the committed table of a scan that starts
  with the batch \<open>b\<close> and nothing uncommitted: once a write of the batch has raised,
  nothing is committed any more.
\<close>

definition close_session :: "nat \<Rightarrow> scan_state \<Rightarrow> MediaFile list \<times> (py_error + nat)" where
  "close_session now s =
     (if batch s \<noteq> [] then
        (case write_batch now (batch s) (session s) (total_files s) of
           (table', n, None) \<Rightarrow> (table', Inr n)
         | (table', n, Some e) \<Rightarrow> (db s, Inl e))
      else (db s, Inr (total_files s)))"

fun committed :: "int \<Rightarrow> nat \<Rightarrow> file_info list \<Rightarrow> MediaFile list \<Rightarrow> future_result list \<Rightarrow> MediaFile list" where
  "committed bs now b t [] =
     (if b = [] then t
      else (case write_batch now b t 0 of (t', n, None) \<Rightarrow> t' | (t', n, Some e) \<Rightarrow> t))"
| "committed bs now b t (Raised e # rs) = committed bs now b t rs"
| "committed bs now b t (Returned i # rs) =
     (if int (length (b @ [i])) \<ge> bs then
        (case write_batch now (b @ [i]) t 0 of
           (t', n, None) \<Rightarrow> committed bs now [] t' rs
         | (t', n, Some e) \<Rightarrow> t)
      else committed bs now (b @ [i]) t rs)"

text \<open>
  What an issue of the filename-similarity pass refers to: two rows of the table, the
  target and a referenced row whose height (absent counting as 0) is not less.
\<close>

definition near_reference :: "MediaFile list \<Rightarrow> MediaIssue \<Rightarrow> bool" where
  "near_reference files i \<longleftrightarrow>
     (\<exists>better worse. better \<in> set files \<and> worse \<in> set files \<and>
        media_file_id i = file_id worse \<and> duplicate_of_id i = Some (file_id better) \<and>
        or_zero (resolution_height worse) \<le> or_zero (resolution_height better) \<and>
        issue_type i = ''duplicate'' \<and> severity i = ''medium'')"

section \<open>Lists with a key\<close>

lemma filter_key_distinct:
  "distinct (map k xs) \<Longrightarrow> x \<in> set xs \<Longrightarrow> filter (\<lambda>y. k y = k x) xs = [x]"
proof (induction xs)
  case Nil
  then show ?case by simp
next
  case (Cons a xs)
  show ?case
  proof (cases "a = x")
    case True
    with Cons.prems have "k x \<notin> k ` set xs" by simp
    then have "\<forall>y\<in>set xs. k y \<noteq> k x" by (metis imageI)
    then have "filter (\<lambda>y. k y = k x) xs = []" by (simp add: filter_empty_conv)
    with True show ?thesis by simp
  next
    case False
    with Cons.prems have "x \<in> set xs" and "k a \<noteq> k x" by auto
    with Cons show ?thesis by simp
  qed
qed

section \<open>The resolution label\<close>

text \<open>
  Claim C10. For a record whose video height is absent, evaluating the \<^verbatim>\<open>resolution\<close>
  property raises an error (a \<^verbatim>\<open>TypeError\<close>) and returns no label. For a record whose
  height is present the property returns a label, and the label is \<open>4K\<close> from 2160 up,
  \<open>1080p\<close> from 1080 up to 2159, \<open>720p\<close> from 720 up to 1079, \<open>480p\<close> from 480
  up to 719 and \<open>SD\<close> below 480: every present height gets exactly one of the five.
\<close>

theorem resolution_label:
  "(resolution_height f = None \<longrightarrow> resolution f = Inl TypeError) \<and>
   (resolution_height f = Some h \<longrightarrow>
      resolution f \<in> {Inr ''4K'', Inr ''1080p'', Inr ''720p'', Inr ''480p'', Inr ''SD''} \<and>
      (resolution f = Inr ''4K'' \<longleftrightarrow> 2160 \<le> h) \<and>
      (resolution f = Inr ''1080p'' \<longleftrightarrow> 1080 \<le> h \<and> h < 2160) \<and>
      (resolution f = Inr ''720p'' \<longleftrightarrow> 720 \<le> h \<and> h < 1080) \<and>
      (resolution f = Inr ''480p'' \<longleftrightarrow> 480 \<le> h \<and> h < 720) \<and>
      (resolution f = Inr ''SD'' \<longleftrightarrow> h < 480))"
  by (auto simp: resolution_def)

text \<open>A row without a height raises; a row of height 720 is labelled \<open>720p\<close>.\<close>

theorem resolution_label_witness:
  "resolution_height (sample_row 1 ''a.mkv'' None None None) = None \<and>
   resolution (sample_row 1 ''a.mkv'' None None None) = Inl TypeError \<and>
   resolution_height (sample_row 2 ''b.mkv'' None (Some 720) None) = Some 720 \<and>
   resolution (sample_row 2 ''b.mkv'' None (Some 720) None) = Inr ''720p''"
  using resolution_label [of "sample_row 1 ''a.mkv'' None None None" 0]
    resolution_label [of "sample_row 2 ''b.mkv'' None (Some 720) None" 720]
  by (simp add: sample_row_def)

section \<open>Low resolution\<close>

lemma low_res_filter:
  "filter (\<lambda>i. media_file_id i = n) (find_low_resolution cfg files) =
   map (low_res_issue cfg) (filter (\<lambda>f. file_id f = n \<and> below_minimum cfg f) files)"
  by (induction files) (auto simp: find_low_resolution_def low_res_issue_def)

text \<open>
  Claim C6. Let \<open>m\<close> be the configured minimum: the value of
  \<^verbatim>\<open>quality.min_resolution\<close> when the configuration sets it, and 1080 when it does
  not. In a table whose rows have distinct ids, a row whose height is present and below
  \<open>m\<close> is the target of exactly one issue of \<^verbatim>\<open>find_low_resolution\<close>: its kind is
  \<open>low_res\<close>, its severity \<open>high\<close>, and its description ends with \<open>m\<close>. A row
  whose height is \<open>m\<close> or more is the target of no issue, and neither is a row without
  a height.
\<close>

theorem find_low_resolution_issues:
  assumes "distinct (map file_id files)" and "f \<in> set files"
      and "quality_min_resolution cfg = Some m \<or> quality_min_resolution cfg = None \<and> m = 1080"
  shows "(\<forall>h. resolution_height f = Some h \<and> h < m \<longrightarrow>
       filter (\<lambda>i. media_file_id i = file_id f) (find_low_resolution cfg files) =
         [\<lparr>media_file_id = file_id f, issue_type = ''low_res'', severity = ''high'',
           description = ''Resolution '' @ py_str h @ ''p is below minimum '' @ py_str m @ ''p'',
           duplicate_of_id = None\<rparr>]) \<and>
    (\<forall>h. resolution_height f = Some h \<and> m \<le> h \<longrightarrow>
       filter (\<lambda>i. media_file_id i = file_id f) (find_low_resolution cfg files) = []) \<and>
    (resolution_height f = None \<longrightarrow>
       filter (\<lambda>i. media_file_id i = file_id f) (find_low_resolution cfg files) = [])"
proof -
  from assms(3) have m: "min_resolution cfg = m"
    by (auto simp: min_resolution_def config_get_def)
  have one: "filter (\<lambda>y. file_id y = file_id f) files = [f]"
    using assms(1,2) by (rule filter_key_distinct)
  have split: "filter (\<lambda>y. file_id y = file_id f \<and> below_minimum cfg y) files =
               filter (below_minimum cfg) (filter (\<lambda>y. file_id y = file_id f) files)"
    by (simp add: conj_commute)
  have sel: "filter (\<lambda>i. media_file_id i = file_id f) (find_low_resolution cfg files) =
             (if below_minimum cfg f then [low_res_issue cfg f] else [])"
    by (simp add: low_res_filter split one)
  show ?thesis
    by (auto simp: sel below_minimum_def low_res_issue_def str_opt_def m)
qed

text \<open>
  With the default minimum, a row of height 720 gets exactly one \<open>low_res\<close> issue and
  a row of height 1080 gets none. With the minimum configured as 720, a row of height 480
  gets one issue that names 720, and a row of height 720 and a row without a height get
  none.
\<close>

theorem find_low_resolution_issues_witness:
  "filter (\<lambda>i. media_file_id i = 1)
     (find_low_resolution default_config
        [sample_row 1 ''a.mkv'' None (Some 720) None, sample_row 2 ''b.mkv'' None (Some 1080) None]) =
     [\<lparr>media_file_id = 1, issue_type = ''low_res'', severity = ''high'',
       description = ''Resolution 720p is below minimum 1080p'', duplicate_of_id = None\<rparr>] \<and>
   filter (\<lambda>i. media_file_id i = 2)
     (find_low_resolution default_config
        [sample_row 1 ''a.mkv'' None (Some 720) None, sample_row 2 ''b.mkv'' None (Some 1080) None]) = [] \<and>
   filter (\<lambda>i. media_file_id i = 1)
     (find_low_resolution (config_with_minimum 720)
        [sample_row 1 ''a.mkv'' None (Some 480) None, sample_row 2 ''b.mkv'' None (Some 720) None,
         sample_row 3 ''c.mkv'' None None None]) =
     [\<lparr>media_file_id = 1, issue_type = ''low_res'', severity = ''high'',
       description = ''Resolution 480p is below minimum 720p'', duplicate_of_id = None\<rparr>] \<and>
   filter (\<lambda>i. media_file_id i = 2)
     (find_low_resolution (config_with_minimum 720)
        [sample_row 1 ''a.mkv'' None (Some 480) None, sample_row 2 ''b.mkv'' None (Some 720) None,
         sample_row 3 ''c.mkv'' None None None]) = [] \<and>
   filter (\<lambda>i. media_file_id i = 3)
     (find_low_resolution (config_with_minimum 720)
        [sample_row 1 ''a.mkv'' None (Some 480) None, sample_row 2 ''b.mkv'' None (Some 720) None,
         sample_row 3 ''c.mkv'' None None None]) = []"
proof -
  let ?d = "[sample_row 1 ''a.mkv'' None (Some 720) None, sample_row 2 ''b.mkv'' None (Some 1080) None]"
  let ?c = "[sample_row 1 ''a.mkv'' None (Some 480) None, sample_row 2 ''b.mkv'' None (Some 720) None,
             sample_row 3 ''c.mkv'' None None None]"
  have dd: "distinct (map file_id ?d)" and dc: "distinct (map file_id ?c)"
    by (simp_all add: sample_row_def)
  have n: "quality_min_resolution default_config = Some 1080 \<or>
           quality_min_resolution default_config = None \<and> (1080::int) = 1080"
    by (simp add: default_config_def)
  have s: "quality_min_resolution (config_with_minimum 720) = Some 720 \<or>
           quality_min_resolution (config_with_minimum 720) = None \<and> (720::int) = 1080"
    by (simp add: config_with_minimum_def)
  have p: "py_str 480 = ''480''" "py_str 720 = ''720''" "py_str 1080 = ''1080''"
    by (simp_all add: py_str_def str_nat.simps digit_char_def)
  from find_low_resolution_issues [OF dd _ n, of "sample_row 1 ''a.mkv'' None (Some 720) None"]
  have 1: "filter (\<lambda>i. media_file_id i = 1) (find_low_resolution default_config ?d) =
     [\<lparr>media_file_id = 1, issue_type = ''low_res'', severity = ''high'',
       description = ''Resolution 720p is below minimum 1080p'', duplicate_of_id = None\<rparr>]"
    by (simp add: sample_row_def p)
  from find_low_resolution_issues [OF dd _ n, of "sample_row 2 ''b.mkv'' None (Some 1080) None"]
  have 2: "filter (\<lambda>i. media_file_id i = 2) (find_low_resolution default_config ?d) = []"
    by (simp add: sample_row_def)
  from find_low_resolution_issues [OF dc _ s, of "sample_row 1 ''a.mkv'' None (Some 480) None"]
  have 3: "filter (\<lambda>i. media_file_id i = 1) (find_low_resolution (config_with_minimum 720) ?c) =
     [\<lparr>media_file_id = 1, issue_type = ''low_res'', severity = ''high'',
       description = ''Resolution 480p is below minimum 720p'', duplicate_of_id = None\<rparr>]"
    by (simp add: sample_row_def p)
  from find_low_resolution_issues [OF dc _ s, of "sample_row 2 ''b.mkv'' None (Some 720) None"]
  have 4: "filter (\<lambda>i. media_file_id i = 2) (find_low_resolution (config_with_minimum 720) ?c) = []"
    by (simp add: sample_row_def)
  from find_low_resolution_issues [OF dc _ s, of "sample_row 3 ''c.mkv'' None None None"]
  have 5: "filter (\<lambda>i. media_file_id i = 3) (find_low_resolution (config_with_minimum 720) ?c) = []"
    by (simp add: sample_row_def)
  from 1 2 3 4 5 show ?thesis by (intro conjI)
qed

section \<open>Quality issues\<close>






section \<open>Exact duplicates\<close>

lemma exact_only:
  "find_duplicates ratio percent default_config files = exact_duplicates files"
  by (simp add: find_duplicates_def default_config_def config_get_def)

text \<open>
  What the sort of line 47 puts first: the key negates height and bitrate, and
  \<^verbatim>\<open>reverse=True\<close> then sorts by that key in descending order, so the first row of a
  group has the greatest key, which is the lowest height, then the lowest bitrate, then
  the largest size.
\<close>

lemma sort_reverse_head_max:
  assumes "sort_reverse key xs = b # rest"
  shows "\<forall>x\<in>set xs. key x \<le> key b"
proof -
  from assms have r: "sort_key key (rev xs) = rev rest @ [b]"
    by (metis rev.simps(2) rev_rev_ident sort_reverse_def)
  have "sorted (map key (sort_key key (rev xs)))" by (rule sorted_sort_key)
  with r have "sorted (map key (rev rest) @ [key b])" by simp
  then have "\<forall>x\<in>set (rev rest). key x \<le> key b" by (auto simp: sorted_append)
  moreover have "set xs = set (rev rest @ [b])"
    using r by (metis set_rev set_sort)
  ultimately show ?thesis by auto
qed

text \<open>
  So every issue of a group refers to a row of the group whose key is the greatest of the
  group.
\<close>

lemma group_issues_reference:
  assumes "i \<in> set (group_issues duplicates)"
  shows "\<exists>best_file dup. best_file \<in> set duplicates \<and> dup \<in> set duplicates \<and>
           i = duplicate_issue best_file dup \<and>
           (\<forall>x\<in>set duplicates. rank_key x \<le> rank_key best_file)"
proof -
  obtain best_file rest where s: "sort_reverse rank_key duplicates = best_file # rest"
    and i: "i \<in> duplicate_issue best_file ` set rest"
  proof (cases "sort_reverse rank_key duplicates")
    case Nil
    with assms show ?thesis by (cases "1 < length duplicates") (simp_all add: group_issues_def)
  next
    case (Cons b rest)
    with assms have "i \<in> duplicate_issue b ` set rest"
      by (cases "1 < length duplicates") (simp_all add: group_issues_def)
    with Cons that show ?thesis by blast
  qed
  from i obtain dup where dup: "dup \<in> set rest" "i = duplicate_issue best_file dup" by blast
  have "set (sort_reverse rank_key duplicates) = set duplicates"
    by (simp add: sort_reverse_def)
  with s dup(1) have "best_file \<in> set duplicates" "dup \<in> set duplicates" by auto
  moreover from s have "\<forall>x\<in>set duplicates. rank_key x \<le> rank_key best_file"
    by (rule sort_reverse_head_max)
  ultimately show ?thesis using dup(2) by blast
qed

text \<open>
  The filename-similarity pass refers to the row of the pair whose height is not less.
\<close>

lemma similar_issue_reference:
  "better \<in> set files \<Longrightarrow> worse \<in> set files \<Longrightarrow>
   or_zero (resolution_height worse) \<le> or_zero (resolution_height better) \<Longrightarrow>
   near_reference files (similar_issue percent similarity better worse)"
  unfolding near_reference_def similar_issue_def by (intro exI [of _ better] exI [of _ worse]) simp

lemma similar_inner_reference:
  "\<forall>i\<in>set (snd st). near_reference files i \<Longrightarrow> file1 \<in> set files \<Longrightarrow> set rest \<subseteq> set files \<Longrightarrow>
   \<forall>i\<in>set (snd (similar_inner ratio percent threshold file1 rest st)). near_reference files i"
proof (induction ratio percent threshold file1 rest st rule: similar_inner.induct)
  case (1 ratio percent threshold file1 st)
  then show ?case by simp
next
  case (2 ratio percent threshold file1 file2 rest checked_pairs issues)
  let ?pair = "(min (file_id file1) (file_id file2), max (file_id file1) (file_id file2))"
  let ?sim = "ratio (file_name file1) (file_name file2)"
  from "2.prems" have f2: "file2 \<in> set files" and rest: "set rest \<subseteq> set files" by simp_all
  show ?case
  proof (cases "?pair \<in> set checked_pairs")
    case True
    from "2.IH"(1) [OF refl True "2.prems"(1,2) rest] True show ?thesis by simp
  next
    case False
    show ?thesis
    proof (cases "?sim \<ge> threshold")
      case ge: True
      let ?better = "if or_zero (resolution_height file1) \<ge> or_zero (resolution_height file2) then file1 else file2"
      let ?worse = "if or_zero (resolution_height file1) \<ge> or_zero (resolution_height file2) then file2 else file1"
      have "near_reference files (similar_issue percent ?sim ?better ?worse)"
        using "2.prems"(2) f2 by (intro similar_issue_reference) auto
      with "2.prems"(1)
      have inv: "\<forall>i\<in>set (snd (?pair # checked_pairs,
                    issues @ [similar_issue percent ?sim ?better ?worse])). near_reference files i"
        by simp
      from "2.IH"(2) [OF refl False refl ge refl refl inv "2.prems"(2) rest] False ge
      show ?thesis by (simp add: Let_def)
    next
      case lt: False
      from "2.prems"(1) have inv: "\<forall>i\<in>set (snd (?pair # checked_pairs, issues)). near_reference files i"
        by simp
      from "2.IH"(3) [OF refl False refl lt inv "2.prems"(2) rest] False lt
      show ?thesis by (simp add: Let_def)
    qed
  qed
qed

lemma similar_outer_reference:
  "\<forall>i\<in>set (snd st). near_reference files i \<Longrightarrow> set fs \<subseteq> set files \<Longrightarrow>
   \<forall>i\<in>set (snd (similar_outer ratio percent threshold fs st)). near_reference files i"
proof (induction fs arbitrary: st)
  case Nil
  then show ?case by simp
next
  case (Cons file1 rest)
  from Cons.prems have "file1 \<in> set files" "set rest \<subseteq> set files" by simp_all
  with Cons.prems(1)
  have "\<forall>i\<in>set (snd (similar_inner ratio percent threshold file1 rest st)). near_reference files i"
    by (intro similar_inner_reference)
  from Cons.IH [OF this \<open>set rest \<subseteq> set files\<close>] show ?case by simp
qed

lemma find_similar_filenames_reference:
  "\<forall>i\<in>set (find_similar_filenames ratio percent cfg files). near_reference files i"
  unfolding find_similar_filenames_def by (rule similar_outer_reference) simp_all

text \<open>
  Claim C1, evaluated on the input of the specification: three rows with the fingerprint
  \<open>H\<close>, the heights 720, 1080, 1080 and the bitrates absent, 3000, 5000. The code makes
  the row of height 720 the canonical one and gives the two rows of height 1080 the
  duplicate issues; the claim names the row of height 1080 and bitrate 5000.
\<close>

theorem find_duplicates_ranking_example:
  "find_duplicates ratio percent default_config
     [sample_row 1 ''a.mkv'' (Some ''H'') (Some 720) None,
      sample_row 2 ''b.mkv'' (Some ''H'') (Some 1080) (Some 3000),
      sample_row 3 ''c.mkv'' (Some ''H'') (Some 1080) (Some 5000)] =
   [\<lparr>media_file_id = 2, issue_type = ''duplicate'', severity = ''high'',
     description = ''Duplicate of a.mkv'', duplicate_of_id = Some 1\<rparr>,
    \<lparr>media_file_id = 3, issue_type = ''duplicate'', severity = ''high'',
     description = ''Duplicate of a.mkv'', duplicate_of_id = Some 1\<rparr>]"
proof -
  have "exact_duplicates
     [sample_row 1 ''a.mkv'' (Some ''H'') (Some 720) None,
      sample_row 2 ''b.mkv'' (Some ''H'') (Some 1080) (Some 3000),
      sample_row 3 ''c.mkv'' (Some ''H'') (Some 1080) (Some 5000)] =
   [\<lparr>media_file_id = 2, issue_type = ''duplicate'', severity = ''high'',
     description = ''Duplicate of a.mkv'', duplicate_of_id = Some 1\<rparr>,
    \<lparr>media_file_id = 3, issue_type = ''duplicate'', severity = ''high'',
     description = ''Duplicate of a.mkv'', duplicate_of_id = Some 1\<rparr>]"
    by code_simp
  then show ?thesis by (simp only: exact_only)
qed

text \<open>
  Claim C9, evaluated on two rows with one fingerprint: the only duplicate issue targets
  the row of height 1080 and bitrate 5000 and refers to the row of height 720 and bitrate
  1000. The reference is to another row, but to the one the ranking puts last.
\<close>

theorem duplicate_of_inferior_example:
  "find_duplicates ratio percent default_config
     [sample_row 1 ''low.mkv'' (Some ''H'') (Some 720) (Some 1000),
      sample_row 2 ''high.mkv'' (Some ''H'') (Some 1080) (Some 5000)] =
   [\<lparr>media_file_id = 2, issue_type = ''duplicate'', severity = ''high'',
     description = ''Duplicate of low.mkv'', duplicate_of_id = Some 1\<rparr>]"
proof -
  have "exact_duplicates
     [sample_row 1 ''low.mkv'' (Some ''H'') (Some 720) (Some 1000),
      sample_row 2 ''high.mkv'' (Some ''H'') (Some 1080) (Some 5000)] =
   [\<lparr>media_file_id = 2, issue_type = ''duplicate'', severity = ''high'',
     description = ''Duplicate of low.mkv'', duplicate_of_id = Some 1\<rparr>]"
    by code_simp
  then show ?thesis by (simp only: exact_only)
qed

section \<open>Missing episodes\<close>

lemma map_of_update_default:
  "map_of (update_default k d g kvs) =
   (map_of kvs)(k \<mapsto> g (case map_of kvs k of None \<Rightarrow> d | Some v \<Rightarrow> v))"
  by (induction kvs) (auto simp: fun_eq_iff)

lemma keys_update_default:
  "map fst (update_default k d g kvs) =
   (if k \<in> set (map fst kvs) then map fst kvs else map fst kvs @ [k])"
  by (induction kvs) force+

lemma distinct_update_default:
  "distinct (map fst kvs) \<Longrightarrow> distinct (map fst (update_default k d g kvs))"
  by (simp add: keys_update_default)

lemma set_update_default:
  "(k', v') \<in> set (update_default k d g kvs) \<Longrightarrow>
   (k', v') \<in> set kvs \<or> (k' = k \<and> (v' = g d \<or> (\<exists>v. (k, v) \<in> set kvs \<and> v' = g v)))"
  by (induction kvs) (auto split: if_splits)

lemma table_ok_add: 
  assumes "table_ok t" shows "table_ok (add_episode t f)"
proof -
  have d: "distinct (map fst (add_episode t f))"
    using assms by (simp add: add_episode_def table_ok_def distinct_update_default)
  have "distinct (map fst seasons)" if "(series, seasons) \<in> set (add_episode t f)" for series seasons
  proof -
    from that have "(series, seasons) \<in> set t \<or>
      seasons = update_default (the (season f)) {} (insert (the (episode f))) [] \<or>
      (\<exists>v. (title f, v) \<in> set t \<and> seasons = update_default (the (season f)) {} (insert (the (episode f))) v)"
      unfolding add_episode_def by (blast dest: set_update_default)
    then show ?thesis
      using assms by (auto simp: table_ok_def intro: distinct_update_default)
  qed
  with d show ?thesis by (auto simp: table_ok_def)
qed

lemma episodes_of_add:
  "episodes_of (add_episode t f) series s =
   (if series = title f \<and> s = the (season f)
    then insert (the (episode f)) (episodes_of t series s) else episodes_of t series s)"
  by (auto simp: episodes_of_def add_episode_def map_of_update_default split: option.splits)

lemma table_ok_foldl: "table_ok t \<Longrightarrow> table_ok (foldl add_episode t fs)"
  by (induction fs arbitrary: t) (auto intro: table_ok_add)

lemma episodes_of_foldl:
  "episodes_of (foldl add_episode t fs) series s =
   episodes_of t series s \<union>
   {the (episode f) | f. f \<in> set fs \<and> title f = series \<and> the (season f) = s}"
proof (induction fs arbitrary: t)
  case Nil
  show ?case by simp
next
  case (Cons a fs)
  show ?case by (auto simp: Cons episodes_of_add)
qed

lemma episodes_of_series_episodes:
  "episodes_of (series_episodes files) series s = observed files series s"
proof -
  have "episodes_of [] series s = {}" by (simp add: episodes_of_def)
  then show ?thesis
    unfolding series_episodes_def episodes_of_foldl observed_def
    by (force simp: is_tv_episode_def)
qed

lemma table_ok_series_episodes: "table_ok (series_episodes files)"
  unfolding series_episodes_def by (rule table_ok_foldl) (simp add: table_ok_def)

lemma table_entry:
  assumes "table_ok t"
  shows "((\<exists>seasons. (series, seasons) \<in> set t \<and> (s, eps) \<in> set seasons) \<and> eps \<noteq> {}) \<longleftrightarrow>
         (episodes_of t series s = eps \<and> eps \<noteq> {})"
proof
  assume "(\<exists>seasons. (series, seasons) \<in> set t \<and> (s, eps) \<in> set seasons) \<and> eps \<noteq> {}"
  then obtain seasons where a: "(series, seasons) \<in> set t" "(s, eps) \<in> set seasons" "eps \<noteq> {}"
    by blast
  from a(1) assms have "map_of t series = Some seasons" by (simp add: table_ok_def)
  moreover from a(1,2) assms have "map_of seasons s = Some eps" by (auto simp: table_ok_def)
  ultimately show "episodes_of t series s = eps \<and> eps \<noteq> {}"
    using a(3) by (simp add: episodes_of_def)
next
  assume b: "episodes_of t series s = eps \<and> eps \<noteq> {}"
  then obtain seasons where "map_of t series = Some seasons" "map_of seasons s = Some eps"
    by (auto simp: episodes_of_def split: option.splits)
  then have "(series, seasons) \<in> set t" "(s, eps) \<in> set seasons"
    by (auto dest: map_of_SomeD)
  with b show "(\<exists>seasons. (series, seasons) \<in> set t \<and> (s, eps) \<in> set seasons) \<and> eps \<noteq> {}"
    by blast
qed

lemma season_gaps_iff:
  "(series', s, miss) \<in> set (season_gaps series (s', eps)) \<longleftrightarrow>
   series' = series \<and> s = s' \<and> eps \<noteq> {} \<and> {Min eps..Max eps} - eps \<noteq> {} \<and>
   miss = sorted_list_of_set ({Min eps..Max eps} - eps)"
  by (auto simp: season_gaps_def Let_def)

lemma find_missing_iff:
  "(series, s, miss) \<in> set (find_missing_episodes files) \<longleftrightarrow>
   (\<exists>seasons eps. (series, seasons) \<in> set (series_episodes files) \<and> (s, eps) \<in> set seasons \<and>
      eps \<noteq> {} \<and> {Min eps..Max eps} - eps \<noteq> {} \<and>
      miss = sorted_list_of_set ({Min eps..Max eps} - eps))"
  unfolding find_missing_episodes_def
  by (fastforce simp: season_gaps_iff)

lemma finite_observed: "finite (observed files series s)"
proof -
  have "observed files series s \<subseteq> (\<lambda>f. the (episode f)) ` set files"
    by (force simp: observed_def)
  then show ?thesis by (rule finite_subset) simp
qed

lemma gap_set:
  assumes "finite E" "E \<noteq> {}"
  shows "{Min E..Max E} - E = {e. Min E < e \<and> e < Max E \<and> e \<notin> E}"
proof -
  have "Min E \<in> E" "Max E \<in> E" using assms by (auto intro: Min_in Max_in)
  then show ?thesis by (auto simp: less_le)
qed

lemma sorted_list_unique:
  assumes "finite A"
  shows "miss = sorted_list_of_set A \<longleftrightarrow> sorted miss \<and> distinct miss \<and> set miss = A"
  using assms by (auto simp: sorted_list_of_set.idem_if_sorted_distinct)

lemma find_missing_observed:
  "(series, s, miss) \<in> set (find_missing_episodes files) \<longleftrightarrow>
   observed files series s \<noteq> {} \<and>
   {Min (observed files series s)..Max (observed files series s)} - observed files series s \<noteq> {} \<and>
   miss = sorted_list_of_set
            ({Min (observed files series s)..Max (observed files series s)} - observed files series s)"
  (is "?L \<longleftrightarrow> ?R")
proof
  let ?t = "series_episodes files"
  have ok: "table_ok ?t" by (rule table_ok_series_episodes)
  assume ?L
  then obtain seasons eps where a: "(series, seasons) \<in> set ?t" "(s, eps) \<in> set seasons"
      "eps \<noteq> {}" "{Min eps..Max eps} - eps \<noteq> {}"
      "miss = sorted_list_of_set ({Min eps..Max eps} - eps)"
    unfolding find_missing_iff by blast
  from a(1,2,3) have "(\<exists>seasons. (series, seasons) \<in> set ?t \<and> (s, eps) \<in> set seasons) \<and> eps \<noteq> {}"
    by blast
  then have "episodes_of ?t series s = eps" using table_entry [OF ok] by blast
  then have "observed files series s = eps" by (simp add: episodes_of_series_episodes)
  with a(3,4,5) show ?R by simp
next
  let ?t = "series_episodes files"
  let ?E = "observed files series s"
  have ok: "table_ok ?t" by (rule table_ok_series_episodes)
  assume r: ?R
  then have "episodes_of ?t series s = ?E \<and> ?E \<noteq> {}" by (simp add: episodes_of_series_episodes)
  then have "(\<exists>seasons. (series, seasons) \<in> set ?t \<and> (s, ?E) \<in> set seasons) \<and> ?E \<noteq> {}"
    using table_entry [OF ok, of series s ?E] by blast
  then obtain seasons where "(series, seasons) \<in> set ?t" "(s, ?E) \<in> set seasons" by blast
  with r show ?L unfolding find_missing_iff by blast
qed

lemma find_missing_gaps_iff:
  "(series, s, miss) \<in> set (find_missing_episodes files) \<longleftrightarrow>
      observed files series s \<noteq> {} \<and> miss \<noteq> [] \<and> sorted miss \<and> distinct miss \<and>
      set miss = {e. Min (observed files series s) < e \<and> e < Max (observed files series s) \<and>
                     e \<notin> observed files series s}"
proof (cases "observed files series s = {}")
  case True
  then show ?thesis by (simp add: find_missing_observed)
next
  case False
  let ?E = "observed files series s"
  let ?G = "{Min ?E..Max ?E} - ?E"
  have fin: "finite ?G" by simp
  have g: "?G = {e. Min ?E < e \<and> e < Max ?E \<and> e \<notin> ?E}"
    using finite_observed False by (rule gap_set)
  have u: "miss = sorted_list_of_set ?G \<longleftrightarrow> sorted miss \<and> distinct miss \<and> set miss = ?G"
    using fin by (rule sorted_list_unique)
  have "(series, s, miss) \<in> set (find_missing_episodes files) \<longleftrightarrow>
        ?G \<noteq> {} \<and> miss = sorted_list_of_set ?G"
    using False by (simp add: find_missing_observed)
  also have "\<dots> \<longleftrightarrow> miss \<noteq> [] \<and> sorted miss \<and> distinct miss \<and> set miss = ?G"
    unfolding u by (metis set_empty)
  finally show ?thesis using False g by simp
qed

lemma season_gaps_keys:
  "x \<in> set (concat (map (season_gaps k) vs)) \<Longrightarrow> fst x = k \<and> fst (snd x) \<in> fst ` set vs"
  by (induction vs) (auto simp: season_gaps_def Let_def split: if_splits)

lemma season_gaps_cases:
  "season_gaps k (s, eps) = [] \<or> (\<exists>m. season_gaps k (s, eps) = [(k, s, m)])"
  by (simp add: season_gaps_def Let_def)

lemma season_gaps_distinct:
  "distinct (map fst vs) \<Longrightarrow> distinct (map gap_key (concat (map (season_gaps k) vs)))"
proof (induction vs)
  case Nil
  show ?case by simp
next
  case (Cons v vs)
  obtain s eps where v: "v = (s, eps)" by (cases v)
  from Cons.prems v have s: "s \<notin> fst ` set vs" by simp
  have notin: "(k, s) \<notin> gap_key ` set (concat (map (season_gaps k) vs))"
  proof
    assume "(k, s) \<in> gap_key ` set (concat (map (season_gaps k) vs))"
    then obtain x where x: "x \<in> set (concat (map (season_gaps k) vs))" "gap_key x = (k, s)"
      by (metis imageE)
    from x(2) have "fst (snd x) = s" by (simp add: gap_key_def)
    with season_gaps_keys [OF x(1)] s show False by simp
  qed
  have rest: "distinct (map gap_key (concat (map (season_gaps k) vs)))"
    using Cons by simp
  from season_gaps_cases [of k s eps] show ?case
  proof
    assume "season_gaps k (s, eps) = []"
    with rest show ?thesis by (simp add: v)
  next
    assume "\<exists>m. season_gaps k (s, eps) = [(k, s, m)]"
    then obtain m where m: "season_gaps k (s, eps) = [(k, s, m)]" by blast
    have "gap_key (k, s, m) = (k, s)" by (simp add: gap_key_def)
    with notin have "gap_key (k, s, m) \<notin> gap_key ` set (concat (map (season_gaps k) vs))"
      by simp
    with rest m show ?thesis by (simp add: v)
  qed
qed

lemma all_gaps_keys:
  "x \<in> set (concat (map (\<lambda>(series, seasons). concat (map (season_gaps series) seasons)) t)) \<Longrightarrow>
   fst x \<in> fst ` set t"
proof (induction t)
  case Nil
  then show ?case by simp
next
  case (Cons p t)
  obtain k vs where p: "p = (k, vs)" by (cases p)
  from Cons.prems p have "x \<in> set (concat (map (season_gaps k) vs)) \<or>
    x \<in> set (concat (map (\<lambda>(series, seasons). concat (map (season_gaps series) seasons)) t))"
    by simp
  then show ?case
  proof
    assume "x \<in> set (concat (map (season_gaps k) vs))"
    then have "fst x = k" by (simp add: season_gaps_keys)
    then show ?thesis by (simp add: p)
  next
    assume "x \<in> set (concat (map (\<lambda>(series, seasons). concat (map (season_gaps series) seasons)) t))"
    then have "fst x \<in> fst ` set t" by (rule Cons.IH)
    then show ?thesis by simp
  qed
qed

lemma find_missing_distinct_aux:
  "distinct (map fst t) \<Longrightarrow> \<forall>p\<in>set t. distinct (map fst (snd p)) \<Longrightarrow>
   distinct (map gap_key
      (concat (map (\<lambda>(series, seasons). concat (map (season_gaps series) seasons)) t)))"
proof (induction t)
  case Nil
  show ?case by simp
next
  case (Cons p t)
  obtain k vs where p: "p = (k, vs)" by (cases p)
  let ?rest = "concat (map (\<lambda>(series, seasons). concat (map (season_gaps series) seasons)) t)"
  from Cons.prems p have k: "k \<notin> fst ` set t" and dv: "distinct (map fst vs)" by auto
  have tail: "distinct (map gap_key ?rest)"
    using Cons by simp
  have head: "distinct (map gap_key (concat (map (season_gaps k) vs)))"
    using dv by (rule season_gaps_distinct)
  have disj: "gap_key ` set (concat (map (season_gaps k) vs)) \<inter> gap_key ` set ?rest = {}"
  proof (rule ccontr)
    assume "\<not> ?thesis"
    then obtain x y where xy: "x \<in> set (concat (map (season_gaps k) vs))"
        "y \<in> set ?rest" "gap_key x = gap_key y"
      by blast
    from xy(3) have "fst x = fst y" by (simp add: gap_key_def)
    with season_gaps_keys [OF xy(1)] all_gaps_keys [OF xy(2)] k show False by simp
  qed
  have "distinct (map gap_key (concat (map (season_gaps k) vs) @ ?rest))"
    using head tail disj by simp
  then show ?case unfolding p by simp
qed

lemma find_missing_distinct:
  "distinct (map gap_key (find_missing_episodes files))"
proof -
  have "table_ok (series_episodes files)" by (rule table_ok_series_episodes)
  then have "distinct (map fst (series_episodes files))"
    and "\<forall>p\<in>set (series_episodes files). distinct (map fst (snd p))"
    by (auto simp: table_ok_def)
  then show ?thesis
    unfolding find_missing_episodes_def by (rule find_missing_distinct_aux)
qed

lemma gaps_example: "find_missing_episodes
     [tv_row 1 ''X'' 1 1, tv_row 2 ''X'' 1 2, tv_row 3 ''X'' 1 4, tv_row 4 ''X'' 1 6] =
     [(Some ''X'', 1, [3, 5])]" by code_simp

lemma no_gap_example: "find_missing_episodes [tv_row 1 ''X'' 1 1, tv_row 2 ''X'' 1 2, tv_row 3 ''X'' 1 3] = []"
  by code_simp

text \<open>
  Claim C4. An entry for a series and a season is in the result of
  \<^verbatim>\<open>find_missing_episodes\<close> exactly when the rows of kind \<open>tv\<close> with that title and
  season and with an episode number are not none and some integer strictly between their
  least and greatest episode number is not among their episode numbers; the entry lists
  exactly those integers, in ascending order, each once. So a group with a single episode
  or without a gap has no entry. No series and season has two entries. The episodes
  1, 2, 4, 6 of one series and season give the list 3, 5; the episodes 1, 2, 3 give no
  entry.
\<close>

theorem find_missing_episodes_gaps:
  "((series, s, miss) \<in> set (find_missing_episodes files) \<longleftrightarrow>
      observed files series s \<noteq> {} \<and> miss \<noteq> [] \<and> sorted miss \<and> distinct miss \<and>
      set miss = {e. Min (observed files series s) < e \<and> e < Max (observed files series s) \<and>
                     e \<notin> observed files series s}) \<and>
   distinct (map gap_key (find_missing_episodes files)) \<and>
   find_missing_episodes
     [tv_row 1 ''X'' 1 1, tv_row 2 ''X'' 1 2, tv_row 3 ''X'' 1 4, tv_row 4 ''X'' 1 6] =
     [(Some ''X'', 1, [3, 5])] \<and>
   find_missing_episodes [tv_row 1 ''X'' 1 1, tv_row 2 ''X'' 1 2, tv_row 3 ''X'' 1 3] = []"
  using find_missing_gaps_iff [of series s miss files] find_missing_distinct [of files]
    gaps_example no_gap_example
  by (simp only: simp_thms)

text \<open>
  Two series in one table: the episodes 1, 2, 4, 6 of \<open>X\<close> and the single episode 7 of
  \<open>Y\<close>. The observed set of \<open>X\<close> is not empty and the entry of \<open>X\<close> is in the result.
\<close>

theorem find_missing_episodes_gaps_witness:
  "observed [tv_row 1 ''X'' 1 1, tv_row 2 ''X'' 1 2, tv_row 3 ''X'' 1 4, tv_row 4 ''X'' 1 6,
             tv_row 5 ''Y'' 2 7] (Some ''X'') 1 \<noteq> {} \<and>
   (Some ''X'', 1, [3, 5]) \<in> set (find_missing_episodes
      [tv_row 1 ''X'' 1 1, tv_row 2 ''X'' 1 2, tv_row 3 ''X'' 1 4, tv_row 4 ''X'' 1 6,
       tv_row 5 ''Y'' 2 7])"
proof -
  have e: "find_missing_episodes
      [tv_row 1 ''X'' 1 1, tv_row 2 ''X'' 1 2, tv_row 3 ''X'' 1 4, tv_row 4 ''X'' 1 6,
       tv_row 5 ''Y'' 2 7] = [(Some ''X'', 1, [3, 5])]"
    by code_simp
  show ?thesis
    using find_missing_episodes_gaps [of "Some ''X''" 1 "[3, 5]"
        "[tv_row 1 ''X'' 1 1, tv_row 2 ''X'' 1 2, tv_row 3 ''X'' 1 4, tv_row 4 ''X'' 1 6,
          tv_row 5 ''Y'' 2 7]"] e
    by simp
qed

section \<open>The content fingerprint\<close>

text \<open>What the hasher has been fed when the digest is taken, for any chunk size.\<close>

lemma calculate_hash_fed:
  "calculate_hash xxh64 chunk_size file =
   Inr (hexdigest xxh64
          (encode (str_nat (length file)) @ take chunk_size file @
           (if length file > chunk_size * 2 then drop (length file - chunk_size) file else [])))"
proof (cases "length file > chunk_size * 2")
  case True
  then have p: "\<not> int (length file) - int chunk_size < 0" by simp
  have n: "nat (int (length file) - int chunk_size) = length file - chunk_size" by simp
  have t: "take chunk_size (drop (length file - chunk_size) file) = drop (length file - chunk_size) file"
    by simp
  show ?thesis
    using True by (simp add: calculate_hash_def Let_def read_def seek_end_def update_def p n t)
next
  case False
  then show ?thesis
    by (simp add: calculate_hash_def Let_def read_def update_def)
qed

text \<open>
  Claim C3. With the chunk size 8192 of the source, the fingerprint of a file is always a
  value (no path of the function raises): the digest, in hexadecimal, of the decimal
  size, the first 8192 bytes and, only when the size exceeds 16384, the last 8192 bytes.
  So two files of equal size with the same first 8192 and the same last 8192 bytes have
  the same fingerprint, whatever the bytes in between; for files of at most 16384 bytes
  the first 8192 bytes and the size are enough; and the empty file has the fingerprint
  of the text \<open>0\<close>. The function has no state of its own: the same content gives the
  same fingerprint on every call.
\<close>

theorem calculate_hash_windows:
  "calculate_hash xxh64 8192 file =
     Inr (hexdigest xxh64
            (encode (str_nat (length file)) @ take 8192 file @
             (if length file > 16384 then drop (length file - 8192) file else []))) \<and>
   (length a = length b \<and> take 8192 a = take 8192 b \<and>
    drop (length a - 8192) a = drop (length b - 8192) b \<longrightarrow>
      calculate_hash xxh64 8192 a = calculate_hash xxh64 8192 b) \<and>
   (length a = length b \<and> length a \<le> 16384 \<and> take 8192 a = take 8192 b \<longrightarrow>
      calculate_hash xxh64 8192 a = calculate_hash xxh64 8192 b) \<and>
   calculate_hash xxh64 8192 [] = Inr (hexdigest xxh64 (encode ''0''))"
proof -
  have 1: "calculate_hash xxh64 8192 f =
     Inr (hexdigest xxh64
            (encode (str_nat (length f)) @ take 8192 f @
             (if length f > 16384 then drop (length f - 8192) f else [])))" for f
    using calculate_hash_fed [of xxh64 8192 f] by simp
  have 2: "calculate_hash xxh64 8192 a = calculate_hash xxh64 8192 b"
    if "length a = length b" "take 8192 a = take 8192 b"
       "drop (length a - 8192) a = drop (length b - 8192) b"
    unfolding 1 using that by simp
  have 3: "calculate_hash xxh64 8192 a = calculate_hash xxh64 8192 b"
    if "length a = length b" "length a \<le> 16384" "take 8192 a = take 8192 b"
    unfolding 1 using that by simp
  have 4: "calculate_hash xxh64 8192 [] = Inr (hexdigest xxh64 (encode ''0''))"
    by (simp add: 1 str_nat.simps digit_char_def)
  show ?thesis using 1 [of "file"] 2 3 4 by blast
qed

text \<open>
  Two files of 16385 bytes that differ in the one byte outside both windows have the
  same fingerprint; so have two files of 8193 bytes that differ in the last byte, which
  is beyond the first 8192 and is not read at that size.
\<close>

theorem calculate_hash_windows_witness:
  "padded 1 \<noteq> padded 2 \<and> length (padded 1) = 16385 \<and>
   calculate_hash sample_hash 8192 (padded 1) = calculate_hash sample_hash 8192 (padded 2) \<and>
   short_file 1 \<noteq> short_file 2 \<and> length (short_file 1) = 8193 \<and>
   calculate_hash sample_hash 8192 (short_file 1) = calculate_hash sample_hash 8192 (short_file 2)"
  using calculate_hash_windows [of sample_hash "padded 1" "padded 1" "padded 2",
      THEN conjunct2, THEN conjunct1]
    calculate_hash_windows [of sample_hash "short_file 1" "short_file 1" "short_file 2",
      THEN conjunct2, THEN conjunct2, THEN conjunct1]
  by (simp add: padded_def short_file_def)

section \<open>Media-track extraction\<close>

lemma select_tracks_find:
  "select_tracks tracks (v, a) =
   (case v of None \<Rightarrow> find (\<lambda>t. track_type t = ''Video'') tracks | Some x \<Rightarrow> Some x,
    case a of None \<Rightarrow> find (\<lambda>t. track_type t = ''Audio'') tracks | Some x \<Rightarrow> Some x)"
  by (induction tracks arbitrary: v a) (auto split: option.splits)

lemma select_tracks_first:
  "select_tracks tracks (None, None) =
   (find (\<lambda>t. track_type t = ''Video'') tracks, find (\<lambda>t. track_type t = ''Audio'') tracks)"
  by (simp add: select_tracks_find)

lemma get_media_info_found:
  assumes "find (\<lambda>t. track_type t = ''Video'') tracks = Some v"
      and "video_duration pf v = Inr d"
  shows "get_media_info pf (Inr tracks) =
         Some \<lparr>media_info.resolution_width = width v,
               media_info.resolution_height = height v,
               media_info.codec = or_str (codec_id v) (format v),
               media_info.bitrate = bit_rate v,
               media_info.duration = d,
               audio = map_option audio_keys (find (\<lambda>t. track_type t = ''Audio'') tracks)\<rparr>"
  using assms by (simp add: get_media_info_def select_tracks_first)

lemma video_duration_cases:
  "video_duration pf v =
     (case Track.duration v of
        PNone \<Rightarrow> Inr None
      | PInt n \<Rightarrow> if n = 0 then Inr None
                  else if \<bar>n\<bar> \<ge> 2 ^ 1024 - 2 ^ 970 then Inl OverflowError
                  else Inr (Some (of_int n / 1000))
      | PFloat x \<Rightarrow> if x = 0 then Inr None else Inr (Some (x / 1000))
      | PStr s \<Rightarrow> if s = [] then Inr None
                  else (case pf s of None \<Rightarrow> Inr None | Some x \<Rightarrow> Inr (Some (x / 1000))))"
  by (simp add: video_duration_def truthy_def py_float_def split: py_value.splits option.splits)

text \<open>
  Claim C7, as the code has it. The duration is read under the guard
  \<^verbatim>\<open>if video_track.duration:\<close>, which is false for the number 0: a video track whose
  duration is 0 milliseconds gives an absent duration, not 0 seconds.
\<close>

theorem zero_duration_counterexample:
  "Track.duration (sample_track ''Video'' (PInt 0) (Some 720)) = PInt 0 \<and>
   map_option media_info.duration
     (get_media_info no_float (Inr [sample_track ''Video'' (PInt 0) (Some 720)])) = Some None"
  by (simp add: get_media_info_def video_duration_def truthy_def sample_track_def)

text \<open>
  Claim C7, amended. Extraction returns a dictionary or \<^verbatim>\<open>None\<close> and never raises:
  it returns \<^verbatim>\<open>None\<close> when parsing raises and when no track is a video track.
  Otherwise the first video track in declaration order gives width, height, codec and
  bitrate, and the first audio track, when there is one, gives the audio keys; later
  tracks of either kind are not read. The duration is the video track's duration divided
  by 1000 when that is a number other than 0 (an integer within the range of a double,
  a float, or a text that parses as a number); it is absent, and the dictionary is still
  returned, when the track's duration is absent, 0, the empty text, or a text that is not
  a number.
\<close>

theorem get_media_info_soft:
  "get_media_info pf (Inl e) = None \<and>
   (find (\<lambda>t. track_type t = ''Video'') tracks = None \<longrightarrow> get_media_info pf (Inr tracks) = None) \<and>
   (find (\<lambda>t. track_type t = ''Video'') tracks = Some v \<and>
    (Track.duration v = PNone \<and> d = None \<or>
     Track.duration v = PInt n \<and> n = 0 \<and> d = None \<or>
     Track.duration v = PInt n \<and> n \<noteq> 0 \<and> \<bar>n\<bar> < 2 ^ 1024 - 2 ^ 970 \<and> d = Some (of_int n / 1000) \<or>
     Track.duration v = PFloat x \<and> x = 0 \<and> d = None \<or>
     Track.duration v = PFloat x \<and> x \<noteq> 0 \<and> d = Some (x / 1000) \<or>
     Track.duration v = PStr s \<and> s = [] \<and> d = None \<or>
     Track.duration v = PStr s \<and> s \<noteq> [] \<and> pf s = Some x \<and> d = Some (x / 1000) \<or>
     Track.duration v = PStr s \<and> s \<noteq> [] \<and> pf s = None \<and> d = None) \<longrightarrow>
    get_media_info pf (Inr tracks) =
      Some \<lparr>media_info.resolution_width = width v,
            media_info.resolution_height = height v,
            media_info.codec = or_str (codec_id v) (format v),
            media_info.bitrate = bit_rate v,
            media_info.duration = d,
            audio = map_option audio_keys (find (\<lambda>t. track_type t = ''Audio'') tracks)\<rparr>)"
proof -
  have a: "get_media_info pf (Inl e) = None" by (simp add: get_media_info_def)
  have b: "get_media_info pf (Inr tracks) = None"
    if "find (\<lambda>t. track_type t = ''Video'') tracks = None"
    using that by (simp add: get_media_info_def select_tracks_first)
  have c: "get_media_info pf (Inr tracks) =
      Some \<lparr>media_info.resolution_width = width v,
            media_info.resolution_height = height v,
            media_info.codec = or_str (codec_id v) (format v),
            media_info.bitrate = bit_rate v,
            media_info.duration = d,
            audio = map_option audio_keys (find (\<lambda>t. track_type t = ''Audio'') tracks)\<rparr>"
    if f: "find (\<lambda>t. track_type t = ''Video'') tracks = Some v"
    and d: "Track.duration v = PNone \<and> d = None \<or>
     Track.duration v = PInt n \<and> n = 0 \<and> d = None \<or>
     Track.duration v = PInt n \<and> n \<noteq> 0 \<and> \<bar>n\<bar> < 2 ^ 1024 - 2 ^ 970 \<and> d = Some (of_int n / 1000) \<or>
     Track.duration v = PFloat x \<and> x = 0 \<and> d = None \<or>
     Track.duration v = PFloat x \<and> x \<noteq> 0 \<and> d = Some (x / 1000) \<or>
     Track.duration v = PStr s \<and> s = [] \<and> d = None \<or>
     Track.duration v = PStr s \<and> s \<noteq> [] \<and> pf s = Some x \<and> d = Some (x / 1000) \<or>
     Track.duration v = PStr s \<and> s \<noteq> [] \<and> pf s = None \<and> d = None"
  proof -
    from d have "video_duration pf v = Inr d"
      unfolding video_duration_cases by (elim disjE) auto
    with f show ?thesis by (rule get_media_info_found)
  qed
  show ?thesis using a b c by blast
qed

text \<open>
  Four tracks, audio first: the first video track (5000 ms, height 720) and the first
  audio track are used. A video track with the duration text \<open>abc\<close> under a parser that
  rejects it still gives a dictionary, without a duration.
\<close>

theorem get_media_info_soft_witness:
  "get_media_info no_float
     (Inr [sample_track ''Audio'' PNone None, sample_track ''Video'' (PInt 5000) (Some 720),
           sample_track ''Video'' (PInt 9000) (Some 1080),
           (sample_track ''Audio'' PNone None)\<lparr>format := Some ''AAC''\<rparr>]) =
     Some \<lparr>media_info.resolution_width = None, media_info.resolution_height = Some 720,
           media_info.codec = Some ''AVC'', media_info.bitrate = None,
           media_info.duration = Some 5,
           audio = Some \<lparr>audio_codec = Some ''AVC'', audio_channels = None,
                          audio_language = None\<rparr>\<rparr> \<and>
   get_media_info no_float (Inr [sample_track ''Video'' (PStr ''abc'') (Some 720)]) =
     Some \<lparr>media_info.resolution_width = None, media_info.resolution_height = Some 720,
           media_info.codec = Some ''AVC'', media_info.bitrate = None,
           media_info.duration = None, audio = None\<rparr> \<and>
   get_media_info no_float (Inr [sample_track ''Audio'' PNone None]) = None \<and>
   get_media_info no_float (Inl LibraryError) = None"
  using get_media_info_soft [of no_float LibraryError "[sample_track ''Audio'' PNone None]"]
    get_media_info_soft [of no_float LibraryError
      "[sample_track ''Audio'' PNone None, sample_track ''Video'' (PInt 5000) (Some 720),
        sample_track ''Video'' (PInt 9000) (Some 1080),
        (sample_track ''Audio'' PNone None)\<lparr>format := Some ''AAC''\<rparr>]"
      "sample_track ''Video'' (PInt 5000) (Some 720)" "Some 5" 5000 0 "[]"]
    get_media_info_soft [of no_float LibraryError
      "[sample_track ''Video'' (PStr ''abc'') (Some 720)]"
      "sample_track ''Video'' (PStr ''abc'') (Some 720)" None 0 0 "''abc''"]
  by (simp add: sample_track_def no_float_def audio_keys_def or_str_def truthy_str_def)

section \<open>Identity from the file name\<close>



















section \<open>The scan: one row per path\<close>

subsection \<open>One dictionary\<close>

lemma file_path_set_attrs [simp]: "file_path (set_attrs info f) = file_info.file_path info"
  by (simp add: set_attrs_def set_media_def Let_def split: option.splits)

lemma file_id_set_attrs [simp]: "file_id (set_attrs info f) = file_id f"
  by (simp add: set_attrs_def set_media_def Let_def split: option.splits)

lemma set_attrs_idem [simp]: "set_attrs info (set_attrs info f) = set_attrs info f"
  by (simp add: set_attrs_def set_media_def Let_def split: option.splits)

text \<open>The values of a row after the dictionary has been set on it.\<close>

lemma set_attrs_values:
  "file_id (set_attrs info f) = file_id f \<and>
   created_at (set_attrs info f) = created_at f \<and>
   scanned_at (set_attrs info f) = scanned_at f \<and>
   file_path (set_attrs info f) = file_info.file_path info \<and>
   file_name (set_attrs info f) = file_info.file_name info \<and>
   file_size (set_attrs info f) = file_info.file_size info \<and>
   file_hash (set_attrs info f) = Some (file_info.file_hash info) \<and>
   media_type (set_attrs info f) = Some (file_info.media_type info) \<and>
   title (set_attrs info f) = Some (file_info.title info) \<and>
   year (set_attrs info f) = file_info.year info \<and>
   season (set_attrs info f) = file_info.season info \<and>
   episode (set_attrs info f) = file_info.episode info \<and>
   resolution_width (set_attrs info f) =
     (case media info of None \<Rightarrow> resolution_width f | Some m \<Rightarrow> media_info.resolution_width m) \<and>
   resolution_height (set_attrs info f) =
     (case media info of None \<Rightarrow> resolution_height f | Some m \<Rightarrow> media_info.resolution_height m) \<and>
   codec (set_attrs info f) =
     (case media info of None \<Rightarrow> codec f | Some m \<Rightarrow> media_info.codec m) \<and>
   bitrate (set_attrs info f) =
     (case media info of None \<Rightarrow> bitrate f | Some m \<Rightarrow> media_info.bitrate m) \<and>
   duration (set_attrs info f) =
     (case media info of None \<Rightarrow> duration f | Some m \<Rightarrow> media_info.duration m)"
  by (simp add: set_attrs_def set_media_def Let_def split: option.splits)

lemma update_first_paths:
  "map file_path (update_first (\<lambda>f. file_path f = p) (set_attrs info) table) = map file_path table"
  if "file_info.file_path info = p"
  using that by (induction table) auto

lemma update_first_length [simp]: "length (update_first P g xs) = length xs"
  by (induction xs) auto

lemma update_first_map:
  "distinct (map k xs) \<Longrightarrow> update_first (\<lambda>x. k x = a) g xs = map (\<lambda>x. if k x = a then g x else x) xs"
proof (induction xs)
  case Nil
  show ?case by simp
next
  case (Cons x xs)
  show ?case
  proof (cases "k x = a")
    case True
    with Cons.prems have "a \<notin> k ` set xs" by auto
    then have "\<forall>y\<in>set xs. k y \<noteq> a" by (metis imageI)
    then have "map (\<lambda>x. if k x = a then g x else x) xs = xs" by (simp add: map_idI)
    with True show ?thesis by simp
  next
    case False
    with Cons show ?thesis by simp
  qed
qed

lemma find_update_first_same:
  "find P xs = Some x \<Longrightarrow> P (g x) \<Longrightarrow> find P (update_first P g xs) = Some (g x)"
  by (induction xs) (auto split: if_splits)

lemma find_update_first_other:
  "(\<And>x. P x \<Longrightarrow> \<not> Q x \<and> \<not> Q (g x)) \<Longrightarrow> find Q (update_first P g xs) = find Q xs"
  by (induction xs) auto

lemma find_append_cases:
  "find P (xs @ ys) = (case find P xs of None \<Rightarrow> find P ys | Some x \<Rightarrow> Some x)"
  by (induction xs) auto

lemma update_first_id:
  "find P xs = Some x \<Longrightarrow> g x = x \<Longrightarrow> update_first P g xs = xs"
  by (induction xs) (auto split: if_splits)

lemma find_None_paths: "find (\<lambda>f. file_path f = p) table = None \<longleftrightarrow> p \<notin> set (map file_path table)"
  by (auto simp: find_None_iff)

lemma upsert_existing:
  assumes "file_info.file_path info \<in> set (map file_path table)"
  shows "upsert now info table =
         Inr (update_first (\<lambda>f. file_path f = file_info.file_path info) (set_attrs info) table)"
proof -
  from assms have "find (\<lambda>f. file_path f = file_info.file_path info) table \<noteq> None"
    by (simp add: find_None_paths)
  then show ?thesis by (auto simp: upsert_def)
qed

lemma upsert_new:
  assumes "file_info.file_path info \<notin> set (map file_path table)"
  shows "upsert now info table =
         (if has_audio_keys info then Inl TypeError
          else Inr (table @ [set_attrs info (blank_row (next_id table) now)]))"
proof -
  from assms have "find (\<lambda>f. file_path f = file_info.file_path info) table = None"
    by (simp add: find_None_paths)
  then show ?thesis by (simp add: upsert_def new_media_file_def)
qed

lemma upsert_paths:
  assumes "upsert now info table = Inr table'"
  shows "map file_path table' =
         (if file_info.file_path info \<in> set (map file_path table) then map file_path table
          else map file_path table @ [file_info.file_path info])"
proof (cases "file_info.file_path info \<in> set (map file_path table)")
  case True
  from assms upsert_existing [OF True, of now]
  have "table' = update_first (\<lambda>f. file_path f = file_info.file_path info) (set_attrs info) table"
    by simp
  with True show ?thesis by (simp add: update_first_paths [OF refl])
next
  case False
  with assms upsert_new [OF False, of now] show ?thesis
    by (auto split: if_splits)
qed

lemma upsert_distinct:
  "upsert now info table = Inr table' \<Longrightarrow> distinct (map file_path table) \<Longrightarrow>
   distinct (map file_path table')"
  by (simp add: upsert_paths)

lemma upsert_agrees_self:
  assumes "upsert now info table = Inr table'"
  shows "agrees info table'"
proof (cases "file_info.file_path info \<in> set (map file_path table)")
  case True
  then obtain f where f: "find (\<lambda>f. file_path f = file_info.file_path info) table = Some f"
    by (cases "find (\<lambda>f. file_path f = file_info.file_path info) table") (auto simp: find_None_paths)
  from assms upsert_existing [OF True, of now]
  have t': "table' = update_first (\<lambda>f. file_path f = file_info.file_path info) (set_attrs info) table"
    by simp
  have "find (\<lambda>f. file_path f = file_info.file_path info) table' = Some (set_attrs info f)"
    unfolding t' using f by (rule find_update_first_same) simp
  then show ?thesis by (simp add: agrees_def)
next
  case False
  with assms upsert_new [OF False, of now]
  have t': "table' = table @ [set_attrs info (blank_row (next_id table) now)]"
    by (auto split: if_splits)
  from False have "find (\<lambda>f. file_path f = file_info.file_path info) table = None"
    by (simp add: find_None_paths)
  then have "find (\<lambda>f. file_path f = file_info.file_path info) table' =
             Some (set_attrs info (blank_row (next_id table) now))"
    unfolding t' by (simp add: find_append_cases)
  then show ?thesis by (simp add: agrees_def)
qed

lemma upsert_agrees_other:
  assumes "upsert now info table = Inr table'" and "agrees j table"
      and "file_info.file_path j \<noteq> file_info.file_path info"
  shows "agrees j table'"
proof -
  have "find (\<lambda>f. file_path f = file_info.file_path j) table' =
        find (\<lambda>f. file_path f = file_info.file_path j) table"
  proof (cases "file_info.file_path info \<in> set (map file_path table)")
    case True
    from assms(1) upsert_existing [OF True, of now]
    have t': "table' = update_first (\<lambda>f. file_path f = file_info.file_path info) (set_attrs info) table"
      by simp
    show ?thesis unfolding t'
    proof (rule find_update_first_other)
      fix x :: MediaFile
      assume "file_path x = file_info.file_path info"
      with assms(3) show "\<not> file_path x = file_info.file_path j \<and>
                          \<not> file_path (set_attrs info x) = file_info.file_path j"
        by simp
    qed
  next
    case False
    with assms(1) upsert_new [OF False, of now]
    have t': "table' = table @ [set_attrs info (blank_row (next_id table) now)]"
      by (auto split: if_splits)
    from assms(2) obtain f where "find (\<lambda>f. file_path f = file_info.file_path j) table = Some f"
      by (auto simp: agrees_def split: option.splits)
    then show ?thesis unfolding t' by (simp add: find_append_cases)
  qed
  with assms(2) show ?thesis by (simp add: agrees_def)
qed

lemma upsert_agrees_id:
  assumes "agrees info table"
  shows "upsert now info table = Inr table"
proof -
  from assms obtain f where f: "find (\<lambda>f. file_path f = file_info.file_path info) table = Some f"
      "set_attrs info f = f"
    by (auto simp: agrees_def split: option.splits)
  from f show ?thesis by (simp add: upsert_def update_first_id)
qed


lemma write_batch_agreeing:
  "\<forall>i\<in>set b. agrees i t \<Longrightarrow> write_batch now b t n = (t, n + length b, None)"
  by (induction b arbitrary: n) (auto simp: upsert_agrees_id)

lemma write_batch_distinct:
  "write_batch now b t n = (t', n', err) \<Longrightarrow> distinct (map file_path t) \<Longrightarrow>
   distinct (map file_path t')"
proof (induction b arbitrary: t n)
  case Nil
  then show ?case by simp
next
  case (Cons i b)
  show ?case
  proof (cases "upsert now i t")
    case (Inl e)
    with Cons.prems show ?thesis by simp
  next
    case (Inr t1)
    with Cons.prems have w: "write_batch now b t1 (n + 1) = (t', n', err)" by simp
    from Inr Cons.prems(2) have "distinct (map file_path t1)" by (rule upsert_distinct)
    with w show ?thesis by (rule Cons.IH)
  qed
qed

lemma write_batch_keeps:
  "write_batch now b t n = (t', n', err) \<Longrightarrow> agrees j t \<Longrightarrow>
   file_info.file_path j \<notin> file_info.file_path ` set b \<Longrightarrow> agrees j t'"
proof (induction b arbitrary: t n)
  case Nil
  then show ?case by simp
next
  case (Cons i b)
  show ?case
  proof (cases "upsert now i t")
    case (Inl e)
    with Cons.prems show ?thesis by simp
  next
    case (Inr t1)
    with Cons.prems have w: "write_batch now b t1 (n + 1) = (t', n', err)" by simp
    from Cons.prems(3) have ne: "file_info.file_path j \<noteq> file_info.file_path i"
      and notin: "file_info.file_path j \<notin> file_info.file_path ` set b" by auto
    from Inr Cons.prems(2) ne have "agrees j t1" by (rule upsert_agrees_other)
    with w show ?thesis using notin by (rule Cons.IH)
  qed
qed

lemma write_batch_written:
  "write_batch now b t n = (t', n', None) \<Longrightarrow> distinct (map file_info.file_path b) \<Longrightarrow>
   \<forall>i\<in>set b. agrees i t'"
proof (induction b arbitrary: t n)
  case Nil
  then show ?case by simp
next
  case (Cons i b)
  show ?case
  proof (cases "upsert now i t")
    case (Inl e)
    with Cons.prems show ?thesis by simp
  next
    case (Inr t1)
    with Cons.prems have w: "write_batch now b t1 (n + 1) = (t', n', None)" by simp
    from Cons.prems(2) have d: "distinct (map file_info.file_path b)"
      and notin: "file_info.file_path i \<notin> file_info.file_path ` set b" by auto
    from Inr have "agrees i t1" by (rule upsert_agrees_self)
    with w have "agrees i t'" using notin by (rule write_batch_keeps)
    moreover from w d have "\<forall>i\<in>set b. agrees i t'" by (rule Cons.IH)
    ultimately show ?thesis by simp
  qed
qed


lemma returned_simps [simp]:
  "returned [] = []"
  "returned (Raised e # rs) = returned rs"
  "returned (Returned info # rs) = info # returned rs"
  by (simp_all add: returned_def map_filter_simps)

lemma set_returned: "set (returned rs) = {info. Returned info \<in> set rs}"
proof (induction rs)
  case Nil
  show ?case by simp
next
  case (Cons r rs)
  then show ?case by (cases r) auto
qed

lemma distinct_map_append_left:
  "distinct (map f (xs @ ys)) \<Longrightarrow> distinct (map f xs)"
  by simp

lemma distinct_map_append_right:
  "distinct (map f (xs @ ys)) \<Longrightarrow> distinct (map f ys)"
  by simp

lemma distinct_map_append_disjoint:
  assumes "distinct (map f (xs @ ys))" and "x \<in> set xs"
  shows "f x \<notin> f ` set ys"
proof -
  from assms(1) have "set (map f xs) \<inter> set (map f ys) = {}" by simp
  moreover from assms(2) have "f x \<in> set (map f xs)" by simp
  ultimately show ?thesis by (metis IntI empty_iff set_map)
qed

lemma scan_step_written:
  assumes inv: "\<forall>i\<in>set W. agrees i (db s) \<and> agrees i (session s)"
      and d: "distinct (map file_info.file_path (W @ batch s @ returned [r]))"
  shows "\<exists>W'. (\<forall>i\<in>set W'. agrees i (db (scan_step bs now s r)) \<and>
                             agrees i (session (scan_step bs now s r))) \<and>
              W' @ batch (scan_step bs now s r) = W @ batch s @ returned [r]"
proof (cases r)
  case (Raised e)
  with inv show ?thesis by (intro exI [of _ W]) (simp add: scan_step_def)
next
  case (Returned info)
  let ?b = "batch s @ [info]"
  from d Returned have d': "distinct (map file_info.file_path (W @ ?b))" by simp
  then have db: "distinct (map file_info.file_path ?b)" by (rule distinct_map_append_right)
  from d' have dis: "\<forall>i\<in>set W. file_info.file_path i \<notin> file_info.file_path ` set ?b"
    by (blast dest: distinct_map_append_disjoint)
  show ?thesis
  proof (cases "int (length ?b) \<ge> bs")
    case False
    with Returned have "scan_step bs now s r = s\<lparr>batch := ?b\<rparr>"
      by (simp add: scan_step_def Let_def)
    with inv Returned show ?thesis by (intro exI [of _ W]) simp
  next
    case True
    obtain t' n' err where w: "write_batch now ?b (session s) (total_files s) = (t', n', err)"
      by (cases "write_batch now ?b (session s) (total_files s)") auto
    have keep: "\<forall>i\<in>set W. agrees i t'"
    proof
      fix i assume i: "i \<in> set W"
      with inv have "agrees i (session s)" by simp
      with w show "agrees i t'" using dis i by (intro write_batch_keeps [OF w]) auto
    qed
    show ?thesis
    proof (cases err)
      case None
      with True Returned w
      have s': "scan_step bs now s r = \<lparr>db = t', session = t', batch = [], total_files = n'\<rparr>"
        by (simp add: scan_step_def Let_def)
      from w None db have "\<forall>i\<in>set ?b. agrees i t'" by (intro write_batch_written) auto
      with keep have "\<forall>i\<in>set (W @ ?b). agrees i t'" by auto
      with Returned show ?thesis unfolding s' by (intro exI [of _ "W @ ?b"]) simp
    next
      case (Some e)
      with True Returned w
      have s': "scan_step bs now s r = \<lparr>db = db s, session = t', batch = ?b, total_files = n'\<rparr>"
        by (simp add: scan_step_def Let_def)
      from inv keep Returned show ?thesis unfolding s' by (intro exI [of _ W]) simp
    qed
  qed
qed

lemma returned_append1: "returned (r # rs) = returned [r] @ returned rs"
  by (cases r) simp_all

lemma scan_loop_written:
  "\<forall>i\<in>set W. agrees i (db s) \<and> agrees i (session s) \<Longrightarrow>
   distinct (map file_info.file_path (W @ batch s @ returned rs)) \<Longrightarrow>
   \<exists>W'. (\<forall>i\<in>set W'. agrees i (db (scan_loop bs now rs s)) \<and>
                     agrees i (session (scan_loop bs now rs s))) \<and>
        W' @ batch (scan_loop bs now rs s) = W @ batch s @ returned rs"
proof (induction rs arbitrary: s W)
  case Nil
  then show ?case by (intro exI [of _ W]) (simp add: scan_loop_def)
next
  case (Cons r rs)
  let ?s = "scan_step bs now s r"
  have "W @ batch s @ returned (r # rs) = (W @ batch s @ returned [r]) @ returned rs"
    unfolding returned_append1 [of r rs] by simp
  with Cons.prems(2) have d1: "distinct (map file_info.file_path (W @ batch s @ returned [r]))"
    by (metis distinct_map_append_left)
  from scan_step_written [OF Cons.prems(1) d1, of bs now]
  obtain W1 where W1: "\<forall>i\<in>set W1. agrees i (db ?s) \<and> agrees i (session ?s)"
      "W1 @ batch ?s = W @ batch s @ returned [r]" by blast
  from W1(2) have eq: "W1 @ batch ?s @ returned rs = W @ batch s @ returned (r # rs)"
    unfolding returned_append1 [of r rs] by simp
  with Cons.prems(2) have d2: "distinct (map file_info.file_path (W1 @ batch ?s @ returned rs))"
    by simp
  from Cons.IH [OF W1(1) d2]
  obtain W' where "\<forall>i\<in>set W'. agrees i (db (scan_loop bs now rs ?s)) \<and>
                     agrees i (session (scan_loop bs now rs ?s))"
      "W' @ batch (scan_loop bs now rs ?s) = W1 @ batch ?s @ returned rs" by blast
  with eq show ?case by (intro exI [of _ W']) (simp add: scan_loop_def)
qed

lemma first_scan_agrees:
  assumes d: "distinct (map file_info.file_path (returned rs))"
      and r: "scan_path bs now rs table = (table1, Inr n)"
  shows "\<forall>i\<in>set (returned rs). agrees i table1"
proof -
  let ?s = "scan_loop bs now rs (open_session table)"
  have "\<exists>W'. (\<forall>i\<in>set W'. agrees i (db ?s) \<and> agrees i (session ?s)) \<and>
        W' @ batch ?s = [] @ batch (open_session table) @ returned rs"
    by (rule scan_loop_written) (simp_all add: open_session_def d)
  then obtain W where W: "\<forall>i\<in>set W. agrees i (db ?s) \<and> agrees i (session ?s)"
      "W @ batch ?s = returned rs" by (auto simp: open_session_def)
  show ?thesis
  proof (cases "batch ?s = []")
    case True
    with r have "table1 = db ?s" by (simp add: scan_path_def Let_def)
    with W True show ?thesis by auto
  next
    case False
    obtain t' n' err where w: "write_batch now (batch ?s) (session ?s) (total_files ?s) = (t', n', err)"
      by (cases "write_batch now (batch ?s) (session ?s) (total_files ?s)") auto
    with r False have err: "err = None" and t1: "table1 = t'"
      by (auto simp: scan_path_def Let_def split: option.splits)
    from d W(2) have d': "distinct (map file_info.file_path (W @ batch ?s))" by simp
    then have db: "distinct (map file_info.file_path (batch ?s))"
      by (rule distinct_map_append_right)
    from d' have dis: "\<forall>i\<in>set W. file_info.file_path i \<notin> file_info.file_path ` set (batch ?s)"
      by (blast dest: distinct_map_append_disjoint)
    have "\<forall>i\<in>set W. agrees i t'"
    proof
      fix i assume i: "i \<in> set W"
      with W(1) have "agrees i (session ?s)" by simp
      then show "agrees i t'" using dis i by (intro write_batch_keeps [OF w]) auto
    qed
    moreover from w err db have "\<forall>i\<in>set (batch ?s). agrees i t'"
      by (intro write_batch_written) auto
    ultimately have "\<forall>i\<in>set (W @ batch ?s). agrees i t'" by auto
    with W(2) t1 show ?thesis by simp
  qed
qed


lemma scan_step_agreeing:
  assumes "db s = t" and "session s = t" and "\<forall>i\<in>set (batch s). agrees i t"
      and "\<forall>i\<in>set (returned [r]). agrees i t"
  shows "db (scan_step bs now s r) = t \<and> session (scan_step bs now s r) = t \<and>
         (\<forall>i\<in>set (batch (scan_step bs now s r)). agrees i t) \<and>
         total_files (scan_step bs now s r) + length (batch (scan_step bs now s r)) =
           total_files s + length (batch s) + length (returned [r])"
proof (cases r)
  case (Raised e)
  with assms show ?thesis by (simp add: scan_step_def)
next
  case (Returned info)
  let ?b = "batch s @ [info]"
  from assms Returned have all: "\<forall>i\<in>set ?b. agrees i t" by simp
  then have w: "write_batch now ?b t (total_files s) = (t, total_files s + length ?b, None)"
    by (rule write_batch_agreeing)
  show ?thesis
  proof (cases "int (length ?b) \<ge> bs")
    case True
    with Returned assms(2) w show ?thesis
      by (simp add: scan_step_def Let_def)
  next
    case False
    with Returned assms all show ?thesis
      by (simp add: scan_step_def Let_def)
  qed
qed

lemma scan_loop_agreeing:
  "db s = t \<Longrightarrow> session s = t \<Longrightarrow> \<forall>i\<in>set (batch s). agrees i t \<Longrightarrow>
   \<forall>i\<in>set (returned rs). agrees i t \<Longrightarrow>
   db (scan_loop bs now rs s) = t \<and> session (scan_loop bs now rs s) = t \<and>
   (\<forall>i\<in>set (batch (scan_loop bs now rs s)). agrees i t) \<and>
   total_files (scan_loop bs now rs s) + length (batch (scan_loop bs now rs s)) =
     total_files s + length (batch s) + length (returned rs)"
proof (induction rs arbitrary: s)
  case Nil
  then show ?case by (simp add: scan_loop_def)
next
  case (Cons r rs)
  let ?s = "scan_step bs now s r"
  from Cons.prems(4) have r: "\<forall>i\<in>set (returned [r]). agrees i t"
    and rs: "\<forall>i\<in>set (returned rs). agrees i t"
    unfolding returned_append1 [of r rs] by simp_all
  from scan_step_agreeing [OF Cons.prems(1-3) r, of bs now]
  have 1: "db ?s = t" "session ?s = t" "\<forall>i\<in>set (batch ?s). agrees i t"
    and n: "total_files ?s + length (batch ?s) = total_files s + length (batch s) + length (returned [r])"
    by simp_all
  from Cons.IH [OF 1 rs] n show ?case
    unfolding returned_append1 [of r rs] by (simp add: scan_loop_def)
qed

lemma second_scan:
  assumes "\<forall>i\<in>set (returned rs). agrees i t"
  shows "scan_path bs now rs t = (t, Inr (length (returned rs)))"
proof -
  let ?s = "scan_loop bs now rs (open_session t)"
  have "db ?s = t \<and> session ?s = t \<and> (\<forall>i\<in>set (batch ?s). agrees i t) \<and>
        total_files ?s + length (batch ?s) =
          total_files (open_session t) + length (batch (open_session t)) + length (returned rs)"
    by (rule scan_loop_agreeing) (simp_all add: open_session_def assms)
  then have s: "db ?s = t" "session ?s = t" "\<forall>i\<in>set (batch ?s). agrees i t"
    and n: "total_files ?s + length (batch ?s) = length (returned rs)"
    by (simp_all add: open_session_def)
  from s(3) have "write_batch now (batch ?s) t (total_files ?s) =
                  (t, total_files ?s + length (batch ?s), None)"
    by (rule write_batch_agreeing)
  with s n show ?thesis by (cases "batch ?s = []") (simp_all add: scan_path_def Let_def)
qed

lemma scan_step_distinct:
  assumes "distinct (map file_path (db s))" and "distinct (map file_path (session s))"
  shows "distinct (map file_path (db (scan_step bs now s r))) \<and>
         distinct (map file_path (session (scan_step bs now s r)))"
proof (cases r)
  case (Raised e)
  with assms show ?thesis by (simp add: scan_step_def)
next
  case (Returned info)
  let ?b = "batch s @ [info]"
  obtain t' n' err where w: "write_batch now ?b (session s) (total_files s) = (t', n', err)"
    by (cases "write_batch now ?b (session s) (total_files s)") auto
  from w assms(2) have "distinct (map file_path t')" by (rule write_batch_distinct)
  with Returned assms w show ?thesis
    by (cases err) (simp_all add: scan_step_def Let_def)
qed

lemma scan_loop_distinct:
  "distinct (map file_path (db s)) \<Longrightarrow> distinct (map file_path (session s)) \<Longrightarrow>
   distinct (map file_path (db (scan_loop bs now rs s))) \<and>
   distinct (map file_path (session (scan_loop bs now rs s)))"
proof (induction rs arbitrary: s)
  case Nil
  then show ?case by (simp add: scan_loop_def)
next
  case (Cons r rs)
  from scan_step_distinct [OF Cons.prems, of bs now r]
  have "distinct (map file_path (db (scan_step bs now s r)))"
    and "distinct (map file_path (session (scan_step bs now s r)))" by simp_all
  from Cons.IH [OF this] show ?case by (simp add: scan_loop_def)
qed

lemma scan_path_distinct:
  assumes "distinct (map file_path table)"
  shows "distinct (map file_path (fst (scan_path bs now rs table)))"
proof -
  let ?s = "scan_loop bs now rs (open_session table)"
  have d: "distinct (map file_path (db ?s)) \<and> distinct (map file_path (session ?s))"
    by (rule scan_loop_distinct) (simp_all add: open_session_def assms)
  obtain t' n' err where w: "write_batch now (batch ?s) (session ?s) (total_files ?s) = (t', n', err)"
    by (cases "write_batch now (batch ?s) (session ?s) (total_files ?s)") auto
  from w d have "distinct (map file_path t')" by (blast intro: write_batch_distinct)
  with d w show ?thesis
    by (cases err) (simp_all add: scan_path_def Let_def)
qed

subsection \<open>A write that raises\<close>

lemma scan_path_close:
  "scan_path bs now rs table = close_session now (scan_loop bs now rs (open_session table))"
  by (simp add: scan_path_def close_session_def Let_def)

lemma write_batch_counter:
  "write_batch now b t n = (t', n', err) \<Longrightarrow> write_batch now b t m = (t', m + (n' - n), err) \<and> n \<le> n'"
proof (induction b arbitrary: t n m)
  case Nil
  then show ?case by simp
next
  case (Cons i b)
  show ?case
  proof (cases "upsert now i t")
    case (Inl e)
    with Cons.prems show ?thesis by auto
  next
    case (Inr t1)
    with Cons.prems have "write_batch now b t1 (n + 1) = (t', n', err)" by simp
    from Cons.IH [OF this, of "m + 1"] Inr show ?thesis by auto
  qed
qed

lemma write_batch_zero:
  "write_batch now b t n = (t', n', err) \<Longrightarrow> \<exists>k. write_batch now b t 0 = (t', k, err)"
  using write_batch_counter [of now b t n t' n' err 0] by blast

lemma upsert_fails_iff:
  "(\<exists>e. upsert now i t = Inl e) \<longleftrightarrow> file_info.file_path i \<notin> path_set t \<and> has_audio_keys i"
proof (cases "file_info.file_path i \<in> set (map file_path t)")
  case True
  then show ?thesis by (simp add: upsert_existing path_set_def)
next
  case False
  then show ?thesis by (simp add: upsert_new path_set_def)
qed

lemma upsert_path_set:
  "upsert now i t = Inr t' \<Longrightarrow> path_set t' = insert (file_info.file_path i) (path_set t)"
  unfolding path_set_def by (auto simp: upsert_paths split: if_splits)

lemma write_batch_fails_iff:
  "write_batch now b t n = (t', n', err) \<Longrightarrow> err \<noteq> None \<longleftrightarrow> write_fails b (path_set t)"
proof (induction b arbitrary: t n)
  case Nil
  then show ?case by simp
next
  case (Cons i b)
  show ?case
  proof (cases "upsert now i t")
    case (Inl e)
    then have "file_info.file_path i \<notin> path_set t \<and> has_audio_keys i"
      using upsert_fails_iff [of now i t] by blast
    with Inl Cons.prems show ?thesis by auto
  next
    case (Inr t1)
    then have nf: "\<not> (file_info.file_path i \<notin> path_set t \<and> has_audio_keys i)"
      using upsert_fails_iff [of now i t] by auto
    from Inr Cons.prems have w: "write_batch now b t1 (n + 1) = (t', n', err)" by simp
    have p: "path_set t1 = insert (file_info.file_path i) (path_set t)"
      using Inr by (rule upsert_path_set)
    have "write_fails (i # b) (path_set t) = write_fails b (path_set t1)"
    proof (cases "file_info.file_path i \<in> path_set t")
      case True
      then have "path_set t1 = path_set t" unfolding p by (rule insert_absorb)
      with True show ?thesis by simp
    next
      case False
      with nf have "\<not> has_audio_keys i" by simp
      with False show ?thesis by (simp add: p)
    qed
    with Cons.IH [OF w] show ?thesis by simp
  qed
qed

lemma write_batch_path_mono:
  "write_batch now b t n = (t', n', err) \<Longrightarrow> path_set t \<subseteq> path_set t'"
proof (induction b arbitrary: t n)
  case Nil
  then show ?case by simp
next
  case (Cons i b)
  show ?case
  proof (cases "upsert now i t")
    case (Inl e)
    with Cons.prems show ?thesis by simp
  next
    case (Inr t1)
    with Cons.prems have w: "write_batch now b t1 (n + 1) = (t', n', err)" by simp
    from Inr have "path_set t \<subseteq> path_set t1"
      by (auto simp: upsert_path_set)
    with Cons.IH [OF w] show ?thesis by blast
  qed
qed

lemma write_fails_append: "write_fails b P \<Longrightarrow> write_fails (b @ b') P"
  by (induction b arbitrary: P) (auto split: if_splits)

lemma write_batch_stays_failed:
  "write_batch now b t n = (t', n', Some e) \<Longrightarrow> write_fails b (path_set t')"
proof (induction b arbitrary: t n)
  case Nil
  then show ?case by simp
next
  case (Cons i b)
  show ?case
  proof (cases "upsert now i t")
    case (Inl e')
    then have "file_info.file_path i \<notin> path_set t \<and> has_audio_keys i"
      using upsert_fails_iff [of now i t] by blast
    with Inl Cons.prems show ?thesis by auto
  next
    case (Inr t1)
    with Cons.prems have w: "write_batch now b t1 (n + 1) = (t', n', Some e)" by simp
    from Inr have "file_info.file_path i \<in> path_set t1" by (simp add: upsert_path_set)
    with write_batch_path_mono [OF w] have "file_info.file_path i \<in> path_set t'" by blast
    with Cons.IH [OF w] show ?thesis by simp
  qed
qed

lemma stuck_step:
  assumes "write_fails (batch s) (path_set (session s))"
  shows "write_fails (batch (scan_step bs now s r)) (path_set (session (scan_step bs now s r))) \<and>
         db (scan_step bs now s r) = db s"
proof (cases r)
  case (Raised e)
  with assms show ?thesis by (simp add: scan_step_def)
next
  case (Returned info)
  let ?b = "batch s @ [info]"
  from assms have f: "write_fails ?b (path_set (session s))" by (rule write_fails_append)
  show ?thesis
  proof (cases "int (length ?b) \<ge> bs")
    case False
    with Returned f show ?thesis by (simp add: scan_step_def Let_def)
  next
    case True
    obtain t' n' err where w: "write_batch now ?b (session s) (total_files s) = (t', n', err)"
      by (cases "write_batch now ?b (session s) (total_files s)") auto
    from write_batch_fails_iff [OF w] f obtain e where e: "err = Some e" by auto
    from w e have "write_fails ?b (path_set t')" by (simp add: write_batch_stays_failed)
    with True Returned w e show ?thesis by (simp add: scan_step_def Let_def)
  qed
qed

lemma stuck_loop:
  "write_fails (batch s) (path_set (session s)) \<Longrightarrow>
   write_fails (batch (scan_loop bs now rs s)) (path_set (session (scan_loop bs now rs s))) \<and>
   db (scan_loop bs now rs s) = db s"
proof (induction rs arbitrary: s)
  case Nil
  then show ?case by (simp add: scan_loop_def)
next
  case (Cons r rs)
  from stuck_step [OF Cons.prems, of bs now r]
  have 1: "write_fails (batch (scan_step bs now s r)) (path_set (session (scan_step bs now s r)))"
    and 2: "db (scan_step bs now s r) = db s" by simp_all
  from Cons.IH [OF 1] 2 show ?case by (simp add: scan_loop_def)
qed

lemma stuck_close:
  assumes "write_fails (batch s) (path_set (session s))"
  shows "\<exists>e. close_session now s = (db s, Inl e)"
proof -
  from assms have ne: "batch s \<noteq> []" by auto
  obtain t' n' err where w: "write_batch now (batch s) (session s) (total_files s) = (t', n', err)"
    by (cases "write_batch now (batch s) (session s) (total_files s)") auto
  from write_batch_fails_iff [OF w] assms obtain e where "err = Some e" by auto
  with ne w show ?thesis by (simp add: close_session_def)
qed

lemma loop_committed:
  "session s = db s \<Longrightarrow>
   fst (close_session now (scan_loop bs now rs s)) = committed bs now (batch s) (db s) rs"
proof (induction rs arbitrary: s)
  case Nil
  show ?case
  proof (cases "batch s = []")
    case True
    then show ?thesis by (simp add: scan_loop_def close_session_def)
  next
    case False
    obtain t' n' err where w: "write_batch now (batch s) (session s) (total_files s) = (t', n', err)"
      by (cases "write_batch now (batch s) (session s) (total_files s)") auto
    from write_batch_zero [OF w] obtain k where z: "write_batch now (batch s) (session s) 0 = (t', k, err)"
      by blast
    from False w z Nil show ?thesis
      by (cases err) (simp_all add: scan_loop_def close_session_def)
  qed
next
  case (Cons r rs)
  show ?case
  proof (cases r)
    case (Raised e)
    with Cons show ?thesis by (simp add: scan_loop_def scan_step_def)
  next
    case (Returned info)
    let ?b = "batch s @ [info]"
    show ?thesis
    proof (cases "int (length ?b) \<ge> bs")
      case False
      with Returned have s': "scan_step bs now s r = s\<lparr>batch := ?b\<rparr>"
        by (simp add: scan_step_def Let_def)
      from Cons.prems have "session (s\<lparr>batch := ?b\<rparr>) = db (s\<lparr>batch := ?b\<rparr>)" by simp
      from Cons.IH [OF this] False Returned s' show ?thesis by (simp add: scan_loop_def)
    next
      case True
      obtain t' n' err where w: "write_batch now ?b (session s) (total_files s) = (t', n', err)"
        by (cases "write_batch now ?b (session s) (total_files s)") auto
      from write_batch_zero [OF w] obtain k where z: "write_batch now ?b (session s) 0 = (t', k, err)"
        by blast
      show ?thesis
      proof (cases err)
        case None
        with True Returned w
        have s': "scan_step bs now s r = \<lparr>db = t', session = t', batch = [], total_files = n'\<rparr>"
          by (simp add: scan_step_def Let_def)
        have "session \<lparr>db = t', session = t', batch = [], total_files = n'\<rparr> =
              db \<lparr>db = t', session = t', batch = [], total_files = n'\<rparr>" by simp
        from Cons.IH [OF this] True Returned z None s' Cons.prems show ?thesis
          by (simp add: scan_loop_def)
      next
        case (Some e)
        with True Returned w
        have s': "scan_step bs now s r = \<lparr>db = db s, session = t', batch = ?b, total_files = n'\<rparr>"
          by (simp add: scan_step_def Let_def)
        from w Some have "write_fails ?b (path_set t')" by (simp add: write_batch_stays_failed)
        then have st: "write_fails (batch (scan_step bs now s r)) (path_set (session (scan_step bs now s r)))"
          by (simp add: s')
        from stuck_loop [OF st, of bs now rs]
        have 1: "write_fails (batch (scan_loop bs now rs (scan_step bs now s r)))
                   (path_set (session (scan_loop bs now rs (scan_step bs now s r))))"
          and 2: "db (scan_loop bs now rs (scan_step bs now s r)) = db s" by (simp_all add: s')
        from stuck_close [OF 1, of now] 2
        have "fst (close_session now (scan_loop bs now rs (scan_step bs now s r))) = db s" by auto
        with True Returned z Some Cons.prems show ?thesis by (simp add: scan_loop_def)
      qed
    qed
  qed
qed

lemma committed_keeps:
  "agrees j t \<Longrightarrow> file_info.file_path j \<notin> file_info.file_path ` set (b @ returned rs) \<Longrightarrow>
   agrees j (committed bs now b t rs)"
proof (induction bs now b t rs rule: committed.induct)
  case (1 bs now b t)
  show ?case
  proof (cases "b = []")
    case True
    with 1 show ?thesis by simp
  next
    case False
    obtain t' n' err where w: "write_batch now b t 0 = (t', n', err)"
      by (cases "write_batch now b t 0") auto
    from 1 have "agrees j t'" by (intro write_batch_keeps [OF w]) auto
    with False w 1 show ?thesis by (cases err) simp_all
  qed
next
  case (2 bs now b t e rs)
  then show ?case by simp
next
  case (3 bs now b t i rs)
  let ?b = "b @ [i]"
  show ?case
  proof (cases "int (length ?b) \<ge> bs")
    case False
    with 3 show ?thesis by simp
  next
    case True
    obtain t' n' err where w: "write_batch now ?b t 0 = (t', n', err)"
      by (cases "write_batch now ?b t 0") auto
    from 3(3,4) have k: "agrees j t'" by (intro write_batch_keeps [OF w]) auto
    show ?thesis
    proof (cases err)
      case None
      from 3(4) have "file_info.file_path j \<notin> file_info.file_path ` set ([] @ returned rs)" by auto
      from 3(1) [OF True w [symmetric] refl None k this] True w None show ?thesis by simp
    next
      case (Some e)
      with True w 3(3) show ?thesis by simp
    qed
  qed
qed

lemma write_batch_same_failure:
  assumes "write_batch now b t n = (t1, n1, Some e)"
  shows "\<exists>t2 n2 e2. write_batch now' b t m = (t2, n2, Some e2)"
proof -
  obtain t2 n2 err where w: "write_batch now' b t m = (t2, n2, err)"
    by (cases "write_batch now' b t m") auto
  from write_batch_fails_iff [OF assms] have "write_fails b (path_set t)" by simp
  with write_batch_fails_iff [OF w] obtain e2 where "err = Some e2" by auto
  with w show ?thesis by blast
qed

lemma committed_idem:
  "distinct (map file_info.file_path (b @ returned rs)) \<Longrightarrow>
   committed bs now' b (committed bs now b t rs) rs = committed bs now b t rs"
proof (induction bs now b t rs rule: committed.induct)
  case (1 bs now b t)
  show ?case
  proof (cases "b = []")
    case True
    then show ?thesis by simp
  next
    case False
    obtain t' n' err where w: "write_batch now b t 0 = (t', n', err)"
      by (cases "write_batch now b t 0") auto
    show ?thesis
    proof (cases err)
      case None
      from 1 have "distinct (map file_info.file_path b)" by simp
      with w None have "\<forall>i\<in>set b. agrees i t'" by (intro write_batch_written) auto
      then have "write_batch now' b t' 0 = (t', 0 + length b, None)" by (rule write_batch_agreeing)
      with False w None show ?thesis by simp
    next
      case (Some e)
      from w Some obtain t2 n2 e2 where "write_batch now' b t 0 = (t2, n2, Some e2)"
        using write_batch_same_failure by blast
      with False w Some show ?thesis by simp
    qed
  qed
next
  case (2 bs now b t e rs)
  then show ?case by simp
next
  case (3 bs now b t i rs)
  let ?b = "b @ [i]"
  show ?case
  proof (cases "int (length ?b) \<ge> bs")
    case False
    from 3(3) have "distinct (map file_info.file_path (?b @ returned rs))" by simp
    from 3(2) [OF False this] False show ?thesis by simp
  next
    case True
    obtain t' n' err where w: "write_batch now ?b t 0 = (t', n', err)"
      by (cases "write_batch now ?b t 0") auto
    show ?thesis
    proof (cases err)
      case None
      let ?T = "committed bs now [] t' rs"
      from 3(3) have d: "distinct (map file_info.file_path (?b @ returned rs))" by simp
      then have db: "distinct (map file_info.file_path ?b)" by (rule distinct_map_append_left)
      from d have dr: "distinct (map file_info.file_path ([] @ returned rs))"
        by (metis append_Nil distinct_map_append_right)
      from w None db have a: "\<forall>j\<in>set ?b. agrees j t'" by (intro write_batch_written) auto
      have "\<forall>j\<in>set ?b. agrees j ?T"
      proof
        fix j assume j: "j \<in> set ?b"
        with a have "agrees j t'" by blast
        moreover from d j have "file_info.file_path j \<notin> file_info.file_path ` set ([] @ returned rs)"
          using distinct_map_append_disjoint [of file_info.file_path ?b "returned rs" j] by simp
        ultimately show "agrees j ?T" by (rule committed_keeps)
      qed
      then have "write_batch now' ?b ?T 0 = (?T, 0 + length ?b, None)" by (rule write_batch_agreeing)
      moreover from 3(1) [OF True w [symmetric] refl None dr]
      have "committed bs now' [] ?T rs = ?T" .
      ultimately show ?thesis using True w None by simp
    next
      case (Some e)
      from w Some obtain t2 n2 e2 where "write_batch now' ?b t 0 = (t2, n2, Some e2)"
        using write_batch_same_failure by blast
      with True w Some show ?thesis by simp
    qed
  qed
qed

lemma scan_path_committed:
  "fst (scan_path bs now rs table) = committed bs now [] table rs"
proof -
  have "session (open_session table) = db (open_session table)" by (simp add: open_session_def)
  from loop_committed [OF this, of now bs rs] show ?thesis
    by (simp add: scan_path_close open_session_def)
qed

lemma scan_same_order:
  assumes "distinct (map file_info.file_path (returned rs))"
  shows "fst (scan_path bs now' rs (fst (scan_path bs now rs table))) = fst (scan_path bs now rs table)"
proof -
  from assms have "distinct (map file_info.file_path ([] @ returned rs))" by simp
  then show ?thesis unfolding scan_path_committed by (rule committed_idem)
qed

text \<open>
  A new file whose dictionary has the audio keys: the scan of that one file ends with the
  exception and commits nothing.
\<close>

lemma scan_new_file_with_audio:
  assumes "has_audio_keys info" and "file_info.file_path info \<notin> set (map file_path table)"
  shows "scan_path bs now [Returned info] table = (table, Inl TypeError)"
proof -
  from assms have u: "upsert now info table = Inl TypeError" by (simp add: upsert_new)
  show ?thesis
    by (simp add: scan_path_def scan_loop_def scan_step_def open_session_def Let_def u)
qed

subsection \<open>Scanning twice\<close>

text \<open>
  What the scan does keep. From a table without two rows of one path, no state of the
  scan and no result of it has two rows of one path. A dictionary whose path is in the
  table overwrites the row of that path in its place (same position, same id, same
  timestamps); a dictionary whose path is not in the table appends one row, unless it
  carries audio keys, which the constructor refuses. When the workers return at most one
  dictionary per path: scanning again with the results in the same order leaves the
  committed table as the first scan left it, whether or not the scans end with that
  exception; and when the first scan ends normally, a second scan of the same results in
  any order of completion, with any batch size and at any time, ends normally with the
  same table, having counted every dictionary.
\<close>

theorem scan_upsert_idempotent:
  assumes "distinct (map file_path table)"
  shows "distinct (map file_path (db (scan_loop bs now rs (open_session table)))) \<and>
    distinct (map file_path (session (scan_loop bs now rs (open_session table)))) \<and>
    distinct (map file_path (fst (scan_path bs now rs table))) \<and>
    (file_info.file_path info \<in> set (map file_path table) \<longrightarrow>
       upsert now info table =
         Inr (map (\<lambda>f. if file_path f = file_info.file_path info then set_attrs info f else f)
                  table)) \<and>
    (file_info.file_path info \<notin> set (map file_path table) \<longrightarrow>
       upsert now info table =
         (if has_audio_keys info then Inl TypeError
          else Inr (table @ [set_attrs info (blank_row (next_id table) now)]))) \<and>
    (distinct (map file_info.file_path (returned rs)) \<longrightarrow>
       fst (scan_path bs now' rs (fst (scan_path bs now rs table))) =
       fst (scan_path bs now rs table)) \<and>
    (distinct (map file_info.file_path (returned rs)) \<and>
     scan_path bs now rs table = (table1, Inr n) \<and> set rs' = set rs \<longrightarrow>
       scan_path bs' now' rs' table1 = (table1, Inr (length (returned rs'))))"
proof -
  have inv: "distinct (map file_path (db (scan_loop bs now rs (open_session table)))) \<and>
             distinct (map file_path (session (scan_loop bs now rs (open_session table))))"
    by (rule scan_loop_distinct) (simp_all add: open_session_def assms)
  have fin: "distinct (map file_path (fst (scan_path bs now rs table)))"
    using assms by (rule scan_path_distinct)
  have upd: "upsert now info table =
         Inr (map (\<lambda>f. if file_path f = file_info.file_path info then set_attrs info f else f)
                  table)"
    if "file_info.file_path info \<in> set (map file_path table)"
    using upsert_existing [OF that, of now] update_first_map [OF assms] by simp
  have ins: "upsert now info table =
         (if has_audio_keys info then Inl TypeError
          else Inr (table @ [set_attrs info (blank_row (next_id table) now)]))"
    if "file_info.file_path info \<notin> set (map file_path table)"
    using that by (rule upsert_new)
  have same: "fst (scan_path bs now' rs (fst (scan_path bs now rs table))) =
              fst (scan_path bs now rs table)"
    if "distinct (map file_info.file_path (returned rs))"
    using that by (rule scan_same_order)
  have twice: "scan_path bs' now' rs' table1 = (table1, Inr (length (returned rs')))"
    if d: "distinct (map file_info.file_path (returned rs))"
    and r: "scan_path bs now rs table = (table1, Inr n)" and s: "set rs' = set rs"
  proof -
    from d r have "\<forall>i\<in>set (returned rs). agrees i table1" by (rule first_scan_agrees)
    moreover from s have "set (returned rs') = set (returned rs)" by (simp add: set_returned)
    ultimately have "\<forall>i\<in>set (returned rs'). agrees i table1" by simp
    then show ?thesis by (rule second_scan)
  qed
  from inv fin upd ins same twice show ?thesis by blast
qed

text \<open>
  A dictionary for the path of the only row overwrites that row; a dictionary for another
  path appends a row with the next id. Two files and a worker that raised, scanned into
  an empty table with batches of five, then scanned again in the reverse order of
  completion with batches of two, later: both scans count two files and the second
  leaves the table of the first.
\<close>

theorem scan_upsert_idempotent_witness:
  "upsert 10 (sample_info ''a.mkv'' (Some 720)) [sample_row 1 ''a.mkv'' None None None] =
     Inr [set_attrs (sample_info ''a.mkv'' (Some 720)) (sample_row 1 ''a.mkv'' None None None)] \<and>
   upsert 10 (sample_info ''b.mkv'' None) [sample_row 1 ''a.mkv'' None None None] =
     Inr [sample_row 1 ''a.mkv'' None None None,
          set_attrs (sample_info ''b.mkv'' None) (blank_row 2 10)] \<and>
   snd (scan_path 5 10
          [Returned (sample_info ''a.mkv'' (Some 720)), Raised LibraryError,
           Returned (sample_info ''b.mkv'' None)] []) = Inr 2 \<and>
   length (fst (scan_path 5 10
          [Returned (sample_info ''a.mkv'' (Some 720)), Raised LibraryError,
           Returned (sample_info ''b.mkv'' None)] [])) = 2 \<and>
   scan_path 2 99
     [Returned (sample_info ''b.mkv'' None), Raised LibraryError,
      Returned (sample_info ''a.mkv'' (Some 720))]
     (fst (scan_path 5 10
          [Returned (sample_info ''a.mkv'' (Some 720)), Raised LibraryError,
           Returned (sample_info ''b.mkv'' None)] [])) =
     (fst (scan_path 5 10
          [Returned (sample_info ''a.mkv'' (Some 720)), Raised LibraryError,
           Returned (sample_info ''b.mkv'' None)] []), Inr 2)"
proof -
  let ?rs = "[Returned (sample_info ''a.mkv'' (Some 720)), Raised LibraryError,
              Returned (sample_info ''b.mkv'' None)]"
  let ?rs' = "[Returned (sample_info ''b.mkv'' None), Raised LibraryError,
               Returned (sample_info ''a.mkv'' (Some 720))]"
  have e: "snd (scan_path 5 10 ?rs []) = Inr 2" by code_simp
  have l: "length (fst (scan_path 5 10 ?rs [])) = 2" by code_simp
  from e have r: "scan_path 5 10 ?rs [] = (fst (scan_path 5 10 ?rs []), Inr 2)"
    by (simp add: prod_eq_iff)
  have d: "distinct (map file_info.file_path (returned ?rs))"
    by (simp add: returned_def map_filter_simps sample_info_def)
  have s: "set ?rs' = set ?rs" by auto
  have n: "length (returned ?rs') = 2" by (simp add: returned_def map_filter_simps)
  have t: "distinct (map file_path ([] :: MediaFile list))" by simp
  from scan_upsert_idempotent [OF t, of 5 10 ?rs "sample_info ''a.mkv'' (Some 720)" 99
      "fst (scan_path 5 10 ?rs [])" 2 ?rs' 2]
  have "distinct (map file_info.file_path (returned ?rs)) \<and>
        scan_path 5 10 ?rs [] = (fst (scan_path 5 10 ?rs []), Inr 2) \<and> set ?rs' = set ?rs \<longrightarrow>
        scan_path 2 99 ?rs' (fst (scan_path 5 10 ?rs [])) =
          (fst (scan_path 5 10 ?rs []), Inr (length (returned ?rs')))"
    by blast
  with d r s
  have "scan_path 2 99 ?rs' (fst (scan_path 5 10 ?rs [])) =
          (fst (scan_path 5 10 ?rs []), Inr (length (returned ?rs')))"
    by blast
  then have "scan_path 2 99 ?rs' (fst (scan_path 5 10 ?rs [])) =
          (fst (scan_path 5 10 ?rs []), Inr 2)"
    by (simp only: n)
  moreover
  have t1: "distinct (map file_path [sample_row 1 ''a.mkv'' None None None])" by simp
  from scan_upsert_idempotent [OF t1, of 5 10 "[]" "sample_info ''a.mkv'' (Some 720)"]
  have "upsert 10 (sample_info ''a.mkv'' (Some 720)) [sample_row 1 ''a.mkv'' None None None] =
     Inr [set_attrs (sample_info ''a.mkv'' (Some 720)) (sample_row 1 ''a.mkv'' None None None)]"
    by (simp add: sample_info_def sample_row_def)
  moreover
  from scan_upsert_idempotent [OF t1, of 5 10 "[]" "sample_info ''b.mkv'' None"]
  have "upsert 10 (sample_info ''b.mkv'' None) [sample_row 1 ''a.mkv'' None None None] =
     Inr [sample_row 1 ''a.mkv'' None None None,
          set_attrs (sample_info ''b.mkv'' None) (blank_row 2 10)]"
    by (simp add: sample_info_def sample_row_def has_audio_keys_def next_id_def)
  ultimately show ?thesis using e l by (intro conjI)
qed

subsection \<open>Scanning twice in another order of completion\<close>

text \<open>
  Claim C5, evaluated on a directory of six new files with the default batch size 5:
  five files without an audio track and one file \<open>c.mkv\<close> with a video and an audio
  track, whose dictionary has the audio keys. In the first scan the worker of \<open>c.mkv\<close>
  completes first: the write of the first batch raises, the batch is never emptied, and
  the scan ends with the exception and an empty table. In the second scan, from that
  table, the worker of \<open>c.mkv\<close> completes last: the batch of the five other files is
  committed before the exception. One scan leaves no row, two scans leave five: the count
  after scanning twice is not the count after scanning once.
\<close>

theorem scan_twice_differs_example:
  "scan_path 5 10
     [Returned (sample_info_audio ''c.mkv'' (Some 1080)), Returned (sample_info ''a1.mkv'' None),
      Returned (sample_info ''a2.mkv'' None), Returned (sample_info ''a3.mkv'' None),
      Returned (sample_info ''a4.mkv'' None), Returned (sample_info ''a5.mkv'' None)] [] =
     ([], Inl TypeError) \<and>
   map file_name (fst (scan_path 5 20
     [Returned (sample_info ''a1.mkv'' None), Returned (sample_info ''a2.mkv'' None),
      Returned (sample_info ''a3.mkv'' None), Returned (sample_info ''a4.mkv'' None),
      Returned (sample_info ''a5.mkv'' None), Returned (sample_info_audio ''c.mkv'' (Some 1080))]
     (fst (scan_path 5 10
       [Returned (sample_info_audio ''c.mkv'' (Some 1080)), Returned (sample_info ''a1.mkv'' None),
        Returned (sample_info ''a2.mkv'' None), Returned (sample_info ''a3.mkv'' None),
        Returned (sample_info ''a4.mkv'' None), Returned (sample_info ''a5.mkv'' None)] [])))) =
     [''a1.mkv'', ''a2.mkv'', ''a3.mkv'', ''a4.mkv'', ''a5.mkv''] \<and>
   snd (scan_path 5 20
     [Returned (sample_info ''a1.mkv'' None), Returned (sample_info ''a2.mkv'' None),
      Returned (sample_info ''a3.mkv'' None), Returned (sample_info ''a4.mkv'' None),
      Returned (sample_info ''a5.mkv'' None), Returned (sample_info_audio ''c.mkv'' (Some 1080))]
     (fst (scan_path 5 10
       [Returned (sample_info_audio ''c.mkv'' (Some 1080)), Returned (sample_info ''a1.mkv'' None),
        Returned (sample_info ''a2.mkv'' None), Returned (sample_info ''a3.mkv'' None),
        Returned (sample_info ''a4.mkv'' None), Returned (sample_info ''a5.mkv'' None)] []))) =
     Inl TypeError"
  by code_simp

end
